theory Spec2Isabelle
  imports Complex_Main
begin

section \<open>Values of the notebook\<close>

text \<open>
  The notebook \<^verbatim>\<open>introduction-to-pytorch-8-full-process.ipynb\<close> is a sequence of
  Python cells over the tensor library. Its own code is the data stage (two data loaders),
  the class \<^verbatim>\<open>NeuralNetwork\<close>, the functions \<^verbatim>\<open>train\<close> and \<^verbatim>\<open>test\<close>, the epoch loop
  and the inference cell. A Python exception is a value \<open>Inl e\<close> of a sum type.
\<close>

datatype error = IndexError | RuntimeError | ValueError | ZeroDivisionError

definition bindE :: "error + 'a \<Rightarrow> ('a \<Rightarrow> error + 'b) \<Rightarrow> error + 'b" where
  "bindE r f = (case r of Inl e \<Rightarrow> Inl e | Inr v \<Rightarrow> f v)"

text \<open>
  A tensor entry is a 32-bit float: not a number, an infinity, or a finite value (the
  real number it stands for; the two zeros of IEEE 754 are one value). The comparisons
  are those of IEEE 754, false whenever an operand is NaN.
\<close>

datatype f32 = NaN | NInf | Fin real | PInf

fun flt :: "f32 \<Rightarrow> f32 \<Rightarrow> bool" where
  "flt NInf (Fin y) = True"
| "flt NInf PInf = True"
| "flt (Fin x) (Fin y) = (x < y)"
| "flt (Fin x) PInf = True"
| "flt a b = False"

definition fle :: "f32 \<Rightarrow> f32 \<Rightarrow> bool" where
  "fle a b \<longleftrightarrow> flt a b \<or> (a = b \<and> a \<noteq> NaN)"

text \<open>
  A tensor is a scalar or the list of its slices along the first dimension. The list is
  empty only for the empty vector: a tensor of more dimensions whose first dimension is
  empty has no value in this type.
\<close>

datatype tensor = Sc f32 | Tn "tensor list"

fun is_Sc :: "tensor \<Rightarrow> bool" where
  "is_Sc (Sc a) = True"
| "is_Sc (Tn ts) = False"

fun flat_all :: "tensor \<Rightarrow> f32 list" where
  "flat_all (Sc a) = [a]"
| "flat_all (Tn ts) = concat (map flat_all ts)"

text \<open>
  \<^verbatim>\<open>nn.Flatten()\<close> (start_dim=1, end_dim=-1) keeps the first dimension and flattens the
  others; a tensor with fewer than two dimensions (a scalar, a vector, the empty vector)
  has no dimension 1.
\<close>

fun flatten :: "tensor \<Rightarrow> error + f32 list list" where
  "flatten (Sc a) = Inl IndexError"
| "flatten (Tn ts) =
     (if ts = [] \<or> list_ex is_Sc ts then Inl IndexError else Inr (map flat_all ts))"

section \<open>The model: class NeuralNetwork\<close>

text \<open>
  \<^verbatim>\<open>nn.Linear(n_in, n_out)\<close> holds a weight of shape [n_out][n_in] and a bias of shape
  [n_out]. Applied to a batch of row vectors it raises when the last dimension of the input
  is not n_in; otherwise output k of a row is the float32 dot product of weight row k with
  the row, plus bias k. The order and the rounding of that sum are the backend's: the
  computation of one output is the parameter \<open>K\<close> (weight row, input row, bias entry) of
  everything that runs the model.
\<close>

type_synonym kernel = "f32 list \<Rightarrow> f32 list \<Rightarrow> f32 \<Rightarrow> f32"

record linear_params =
  weight :: "f32 list list"
  bias :: "f32 list"

definition affine :: "kernel \<Rightarrow> linear_params \<Rightarrow> f32 list \<Rightarrow> f32 list" where
  "affine K L v = map2 (\<lambda>row b. K row v b) (weight L) (bias L)"

definition Linear_forward :: "kernel \<Rightarrow> linear_params \<Rightarrow> f32 list list \<Rightarrow> error + f32 list list" where
  "Linear_forward K L X =
     (if length (bias L) = length (weight L) \<and>
         list_all (\<lambda>v. list_all (\<lambda>row. length row = length v) (weight L)) X
      then Inr (map (affine K L) X) else Inl RuntimeError)"

text \<open>
  \<^verbatim>\<open>nn.ReLU\<close> is the threshold at 0: an entry that compares \<open>\<le> 0\<close> becomes 0, any other
  entry is returned as it is, NaN included.
\<close>

definition relu :: "f32 \<Rightarrow> f32" where
  "relu a = (if fle a (Fin 0) then Fin 0 else a)"

definition ReLU_forward :: "f32 list list \<Rightarrow> f32 list list" where
  "ReLU_forward X = map (map relu) X"

datatype layer = Linear linear_params | ReLU

fun layer_forward :: "kernel \<Rightarrow> layer \<Rightarrow> f32 list list \<Rightarrow> error + f32 list list" where
  "layer_forward K (Linear L) X = Linear_forward K L X"
| "layer_forward K ReLU X = Inr (ReLU_forward X)"

text \<open>\<^verbatim>\<open>nn.Sequential\<close> applies its layers in order.\<close>

fun Sequential :: "kernel \<Rightarrow> layer list \<Rightarrow> f32 list list \<Rightarrow> error + f32 list list" where
  "Sequential K [] X = Inr X"
| "Sequential K (l # ls) X = bindE (layer_forward K l X) (Sequential K ls)"

text \<open>
  The learnable parameters of \<^verbatim>\<open>NeuralNetwork\<close>: the three linear layers at positions 0, 2
  and 4 of \<^verbatim>\<open>linear_relu_stack\<close>. \<^verbatim>\<open>__init__\<close> fixes their shapes.
\<close>

record NeuralNetwork =
  stack0 :: linear_params
  stack2 :: linear_params
  stack4 :: linear_params

definition Linear_shape :: "nat \<Rightarrow> nat \<Rightarrow> linear_params \<Rightarrow> bool" where
  "Linear_shape n_in n_out L \<longleftrightarrow>
     length (weight L) = n_out \<and> length (bias L) = n_out \<and>
     list_all (\<lambda>row. length row = n_in) (weight L)"

definition NeuralNetwork_init :: "NeuralNetwork \<Rightarrow> bool" where
  "NeuralNetwork_init m \<longleftrightarrow>
     Linear_shape (28 * 28) 512 (stack0 m) \<and>
     Linear_shape 512 512 (stack2 m) \<and>
     Linear_shape 512 10 (stack4 m)"

definition linear_relu_stack :: "NeuralNetwork \<Rightarrow> layer list" where
  "linear_relu_stack m =
     [Linear (stack0 m), ReLU, Linear (stack2 m), ReLU, Linear (stack4 m), ReLU]"

definition forward :: "kernel \<Rightarrow> NeuralNetwork \<Rightarrow> tensor \<Rightarrow> error + f32 list list" where
  "forward K m x = bindE (flatten x) (\<lambda>x1. Sequential K (linear_relu_stack m) x1)"

text \<open>
  \<^verbatim>\<open>argmax\<close> of the tensor library scans the entries and keeps the first one that no
  later entry beats; an entry beats the kept one when it is greater, or when it is NaN
  and the kept one is not. It raises on an empty dimension.
\<close>

fun argmax_from :: "nat \<Rightarrow> f32 \<Rightarrow> nat \<Rightarrow> f32 list \<Rightarrow> nat" where
  "argmax_from best bv i [] = best"
| "argmax_from best bv i (a # as) =
     (if flt bv a \<or> (a = NaN \<and> bv \<noteq> NaN) then argmax_from i a (Suc i) as
      else argmax_from best bv (Suc i) as)"

definition argmax :: "f32 list \<Rightarrow> error + nat" where
  "argmax v = (case v of [] \<Rightarrow> Inl IndexError | a # as \<Rightarrow> Inr (argmax_from 0 a 1 as))"

text \<open>\<^verbatim>\<open>pred.argmax(1)\<close>: the argmax of every row.\<close>

fun argmax1 :: "f32 list list \<Rightarrow> error + nat list" where
  "argmax1 [] = Inr []"
| "argmax1 (r # rs) = bindE (argmax r) (\<lambda>i. bindE (argmax1 rs) (\<lambda>js. Inr (i # js)))"

text \<open>
  \<^verbatim>\<open>(a == y).type(torch.float).sum().item()\<close> for two vectors of class indices: the number
  of positions that agree, as a float. The comparison broadcasts a vector of length 1 and
  raises on any other difference of lengths.
\<close>

definition count_eq :: "nat list \<Rightarrow> nat list \<Rightarrow> error + real" where
  "count_eq a y =
     (if length a = length y then Inr (real (length (filter (\<lambda>(i, l). i = l) (zip a y))))
      else if length a = 1 then Inr (real (length (filter (\<lambda>l. hd a = l) y)))
      else if length y = 1 then Inr (real (length (filter (\<lambda>i. i = hd y) a)))
      else Inl RuntimeError)"

text \<open>Python's \<^verbatim>\<open>xs[i]\<close> for an index that is not negative.\<close>

definition getitem :: "'a list \<Rightarrow> nat \<Rightarrow> error + 'a" where
  "getitem xs i = (if i < length xs then Inr (xs ! i) else Inl IndexError)"

section \<open>The data stage\<close>

text \<open>
  A dataset is an ordered list of (image, label) pairs; a label is a class index.
  \<^verbatim>\<open>DataLoader(dataset, batch_size=n)\<close> with its default sampler yields the dataset in
  order, in batches of n items, the last one shorter when n does not divide the size;
  it refuses a batch size that is not positive. A batch is the list X of its images
  (the tensor \<open>Tn X\<close>) and the list y of its labels.
\<close>

type_synonym dataset = "(tensor \<times> nat) list"

type_synonym batch = "tensor list \<times> nat list"

record dataloader =
  dataset :: dataset
  per_batch :: nat

definition DataLoader :: "dataset \<Rightarrow> nat \<Rightarrow> error + dataloader" where
  "DataLoader ds n = (if n = 0 then Inl ValueError else Inr \<lparr>dataset = ds, per_batch = n\<rparr>)"

function chunks :: "nat \<Rightarrow> 'a list \<Rightarrow> 'a list list" where
  "chunks n xs = (if n = 0 \<or> xs = [] then [] else take n xs # chunks n (drop n xs))"
  by pat_completeness auto
termination
  by (relation "measure (\<lambda>(n, xs). length xs)") auto

declare chunks.simps [simp del]

definition collate :: "(tensor \<times> nat) list \<Rightarrow> batch" where
  "collate items = (map fst items, map snd items)"

definition iter_batches :: "dataloader \<Rightarrow> batch list" where
  "iter_batches dl = map collate (chunks (per_batch dl) (dataset dl))"

text \<open>
  The two splits come from \<^verbatim>\<open>datasets.FashionMNIST\<close> with \<^verbatim>\<open>train=True\<close> and
  \<^verbatim>\<open>train=False\<close>; the data-loader cell builds both loaders.
\<close>

record notebook =
  training_data :: dataset
  test_data :: dataset

definition batch_size :: nat where
  "batch_size = 64"

definition train_dataloader :: "notebook \<Rightarrow> error + dataloader" where
  "train_dataloader nb = DataLoader (training_data nb) batch_size"

definition test_dataloader :: "notebook \<Rightarrow> error + dataloader" where
  "test_dataloader nb = DataLoader (training_data nb) batch_size"

section \<open>Training and evaluation\<close>

text \<open>
  What the cells mutate: the parameters of the model, the gradient buffers stored with
  them (\<^verbatim>\<open>.grad\<close>), the train/eval flag of the module, and the printed output. A loss
  read with \<^verbatim>\<open>.item()\<close> is a Python float, taken as a real number.
\<close>

datatype line =
  EpochLine nat
| ProgressLine real nat nat
| TestLine real real
| DoneLine
| PredictedLine string string

record ('p, 'g) world =
  params :: 'p
  grad :: 'g
  training :: bool
  stdout :: "line list"

definition print :: "line \<Rightarrow> ('p, 'g) world \<Rightarrow> ('p, 'g) world" where
  "print l w = w\<lparr>stdout := stdout w @ [l]\<rparr>"

text \<open>
  \<^verbatim>\<open>optimizer.zero_grad()\<close> clears the gradient buffers, \<^verbatim>\<open>loss.backward()\<close> adds the
  gradient of the loss to them, \<^verbatim>\<open>optimizer.step()\<close> applies the update rule to the
  parameters with the buffers' content.
\<close>

definition zero_grad :: "('p, 'g::zero) world \<Rightarrow> ('p, 'g) world" where
  "zero_grad w = w\<lparr>grad := 0\<rparr>"

definition loss_backward :: "'g \<Rightarrow> ('p, 'g::plus) world \<Rightarrow> ('p, 'g) world" where
  "loss_backward g w = w\<lparr>grad := grad w + g\<rparr>"

definition optimizer_step :: "('p \<Rightarrow> 'g \<Rightarrow> 'p) \<Rightarrow> ('p, 'g) world \<Rightarrow> ('p, 'g) world" where
  "optimizer_step step w = w\<lparr>params := step (params w) (grad w)\<rparr>"

text \<open>
  The model is its forward function of the parameters. The forward pass and the loss
  function record how the loss depends on the parameters: \<open>loss_of model loss_fn X y\<close> is
  the loss of the batch (X, y) as a function of the parameters. \<open>autograd f p\<close> is the
  gradient of such a function f at the parameters p, as the tensor library computes it.
\<close>

definition loss_of ::
  "('p \<Rightarrow> tensor \<Rightarrow> error + f32 list list) \<Rightarrow> (f32 list list \<Rightarrow> nat list \<Rightarrow> error + real) \<Rightarrow>
   tensor list \<Rightarrow> nat list \<Rightarrow> 'p \<Rightarrow> error + real" where
  "loss_of model loss_fn X y p = bindE (model p (Tn X)) (\<lambda>pred. loss_fn pred y)"

text \<open>The body of the loop of \<^verbatim>\<open>train\<close> for the batch (X, y) at index \<open>batch\<close>.\<close>

definition train_batch ::
  "(('p \<Rightarrow> error + real) \<Rightarrow> 'p \<Rightarrow> 'g) \<Rightarrow> nat \<Rightarrow> ('p \<Rightarrow> tensor \<Rightarrow> error + f32 list list) \<Rightarrow>
   (f32 list list \<Rightarrow> nat list \<Rightarrow> error + real) \<Rightarrow> ('p \<Rightarrow> 'g \<Rightarrow> 'p) \<Rightarrow>
   nat \<Rightarrow> tensor list \<Rightarrow> nat list \<Rightarrow> ('p, 'g::{zero,plus}) world \<Rightarrow> error + ('p, 'g) world" where
  "train_batch autograd size' model loss_fn step batch X y w =
     bindE (model (params w) (Tn X)) (\<lambda>pred.
     bindE (loss_fn pred y) (\<lambda>loss.
       let w1 = zero_grad w;
           w2 = loss_backward (autograd (loss_of model loss_fn X y) (params w)) w1;
           w3 = optimizer_step step w2
       in Inr (if batch mod 100 = 0
               then print (ProgressLine loss (batch * length X) size') w3
               else w3)))"

fun train_loop ::
  "(('p \<Rightarrow> error + real) \<Rightarrow> 'p \<Rightarrow> 'g) \<Rightarrow> nat \<Rightarrow> ('p \<Rightarrow> tensor \<Rightarrow> error + f32 list list) \<Rightarrow>
   (f32 list list \<Rightarrow> nat list \<Rightarrow> error + real) \<Rightarrow> ('p \<Rightarrow> 'g \<Rightarrow> 'p) \<Rightarrow>
   (nat \<times> batch) list \<Rightarrow> ('p, 'g::{zero,plus}) world \<Rightarrow> ('p, 'g) world \<times> error option" where
  "train_loop autograd size' model loss_fn step [] w = (w, None)"
| "train_loop autograd size' model loss_fn step ((batch, (X, y)) # rest) w =
     (case train_batch autograd size' model loss_fn step batch X y w of
        Inl e \<Rightarrow> (w, Some e)
      | Inr w' \<Rightarrow> train_loop autograd size' model loss_fn step rest w')"

definition train ::
  "(('p \<Rightarrow> error + real) \<Rightarrow> 'p \<Rightarrow> 'g) \<Rightarrow> dataloader \<Rightarrow> ('p \<Rightarrow> tensor \<Rightarrow> error + f32 list list) \<Rightarrow>
   (f32 list list \<Rightarrow> nat list \<Rightarrow> error + real) \<Rightarrow> ('p \<Rightarrow> 'g \<Rightarrow> 'p) \<Rightarrow>
   ('p, 'g::{zero,plus}) world \<Rightarrow> ('p, 'g) world \<times> error option" where
  "train autograd dataloader model loss_fn step w =
     (let size' = length (dataset dataloader)
      in train_loop autograd size' model loss_fn step (enumerate 0 (iter_batches dataloader)) w)"

text \<open>
  \<^verbatim>\<open>test\<close>: the loop adds the loss of every batch to \<open>test_loss\<close> and the number of rows
  whose argmax is the label to \<open>correct\<close>; both are then divided by the size of the
  dataset (Python raises on a division by zero) and printed, the accuracy as a percentage.
  \<open>loss_fn\<close> is the notebook's global.
\<close>

fun test_loop ::
  "('p \<Rightarrow> tensor \<Rightarrow> error + f32 list list) \<Rightarrow> (f32 list list \<Rightarrow> nat list \<Rightarrow> error + real) \<Rightarrow>
   'p \<Rightarrow> batch list \<Rightarrow> real \<times> real \<Rightarrow> error + real \<times> real" where
  "test_loop model loss_fn p [] (test_loss, correct) = Inr (test_loss, correct)"
| "test_loop model loss_fn p ((X, y) # rest) (test_loss, correct) =
     bindE (model p (Tn X)) (\<lambda>pred.
     bindE (loss_fn pred y) (\<lambda>loss.
     bindE (argmax1 pred) (\<lambda>top1.
     bindE (count_eq top1 y) (\<lambda>c.
       test_loop model loss_fn p rest (test_loss + loss, correct + c)))))"

definition test ::
  "(f32 list list \<Rightarrow> nat list \<Rightarrow> error + real) \<Rightarrow> dataloader \<Rightarrow>
   ('p \<Rightarrow> tensor \<Rightarrow> error + f32 list list) \<Rightarrow> ('p, 'g) world \<Rightarrow> ('p, 'g) world \<times> error option" where
  "test loss_fn dataloader model w =
     (let size' = length (dataset dataloader);
          w1 = w\<lparr>training := False\<rparr>
      in case test_loop model loss_fn (params w1) (iter_batches dataloader) (0, 0) of
           Inl e \<Rightarrow> (w1, Some e)
         | Inr (test_loss, correct) \<Rightarrow>
             if size' = 0 then (w1, Some ZeroDivisionError)
             else (print (TestLine (100 * (correct / real size')) (test_loss / real size')) w1, None))"

text \<open>The epoch loop of the notebook, over the two loaders of the data stage.\<close>

definition epochs :: nat where
  "epochs = 15"

fun epoch_loop ::
  "(('p \<Rightarrow> error + real) \<Rightarrow> 'p \<Rightarrow> 'g) \<Rightarrow> dataloader \<Rightarrow> dataloader \<Rightarrow>
   ('p \<Rightarrow> tensor \<Rightarrow> error + f32 list list) \<Rightarrow> (f32 list list \<Rightarrow> nat list \<Rightarrow> error + real) \<Rightarrow>
   ('p \<Rightarrow> 'g \<Rightarrow> 'p) \<Rightarrow> nat list \<Rightarrow> ('p, 'g::{zero,plus}) world \<Rightarrow> ('p, 'g) world \<times> error option" where
  "epoch_loop autograd train_dl test_dl model loss_fn step [] w = (print DoneLine w, None)"
| "epoch_loop autograd train_dl test_dl model loss_fn step (t # ts) w =
     (case train autograd train_dl model loss_fn step (print (EpochLine (t + 1)) w) of
        (w1, Some e) \<Rightarrow> (w1, Some e)
      | (w1, None) \<Rightarrow>
          (case test loss_fn test_dl model w1 of
             (w2, Some e) \<Rightarrow> (w2, Some e)
           | (w2, None) \<Rightarrow> epoch_loop autograd train_dl test_dl model loss_fn step ts w2))"

definition run_epochs ::
  "(('p \<Rightarrow> error + real) \<Rightarrow> 'p \<Rightarrow> 'g) \<Rightarrow> notebook \<Rightarrow>
   ('p \<Rightarrow> tensor \<Rightarrow> error + f32 list list) \<Rightarrow> (f32 list list \<Rightarrow> nat list \<Rightarrow> error + real) \<Rightarrow>
   ('p \<Rightarrow> 'g \<Rightarrow> 'p) \<Rightarrow> ('p, 'g::{zero,plus}) world \<Rightarrow> ('p, 'g) world \<times> error option" where
  "run_epochs autograd nb model loss_fn step w =
     (case train_dataloader nb of
        Inl e \<Rightarrow> (w, Some e)
      | Inr train_dl \<Rightarrow>
          (case test_dataloader nb of
             Inl e \<Rightarrow> (w, Some e)
           | Inr test_dl \<Rightarrow>
               epoch_loop autograd train_dl test_dl model loss_fn step [0..<epochs] w))"

section \<open>Inference\<close>

definition classes :: "string list" where
  "classes =
     [''T-shirt/top'', ''Trouser'', ''Pullover'', ''Dress'', ''Coat'',
      ''Sandal'', ''Shirt'', ''Sneaker'', ''Bag'', ''Ankle boot'']"

text \<open>
  The inference cell: the first item of the test split goes through the model, the
  argmax of the first output row selects the predicted class name.
\<close>

definition inference :: "kernel \<Rightarrow> NeuralNetwork \<Rightarrow> dataset \<Rightarrow> error + line" where
  "inference K m td =
     bindE (getitem td 0) (\<lambda>(x, y).
     bindE (forward K m x) (\<lambda>pred.
     bindE (getitem pred 0) (\<lambda>pred0.
     bindE (argmax pred0) (\<lambda>i.
     bindE (getitem classes i) (\<lambda>predicted.
     bindE (getitem classes y) (\<lambda>actual.
       Inr (PredictedLine predicted actual)))))))"

section \<open>Functions used to state the properties\<close>

text \<open>
  The rectifier by cases: NaN stays, a negative value (or minus infinity) becomes 0, any
  other value stays.
\<close>

definition rectifier :: "f32 \<Rightarrow> f32" where
  "rectifier a = (case a of NaN \<Rightarrow> NaN | NInf \<Rightarrow> Fin 0 | Fin r \<Rightarrow> Fin (max 0 r) | PInf \<Rightarrow> PInf)"

text \<open>
  A layer of n units on the vector v: unit k is the rectifier of the kernel's output for
  weight row k and bias k. The network on a vector: two hidden layers of 512 units and an
  output layer of 10 units, whose values the source's \<^verbatim>\<open>forward\<close> names \<^verbatim>\<open>logits\<close>.
\<close>

definition layer_spec :: "kernel \<Rightarrow> linear_params \<Rightarrow> nat \<Rightarrow> f32 list \<Rightarrow> f32 list" where
  "layer_spec K L n v = map (\<lambda>k. rectifier (K (weight L ! k) v (bias L ! k))) [0..<n]"

definition hidden1 :: "kernel \<Rightarrow> NeuralNetwork \<Rightarrow> f32 list \<Rightarrow> f32 list" where
  "hidden1 K m v = layer_spec K (stack0 m) 512 v"

definition hidden2 :: "kernel \<Rightarrow> NeuralNetwork \<Rightarrow> f32 list \<Rightarrow> f32 list" where
  "hidden2 K m v = layer_spec K (stack2 m) 512 (hidden1 K m v)"

definition logits :: "kernel \<Rightarrow> NeuralNetwork \<Rightarrow> f32 list \<Rightarrow> f32 list" where
  "logits K m v = layer_spec K (stack4 m) 10 (hidden2 K m v)"

text \<open>
  An image is a grid of 28 rows of 28 scalars, or a single such grid as its only channel
  ([28][28] or [1][28][28]); its vector lists the pixels row after row. An input of the
  model is a tensor whose slices along the first dimension are images: a batch of the
  loader, [N][1][28][28], or one item of the dataset, [1][28][28].
\<close>

fun slices :: "tensor \<Rightarrow> tensor list" where
  "slices (Sc a) = []"
| "slices (Tn ts) = ts"

fun scalar :: "tensor \<Rightarrow> f32" where
  "scalar (Sc a) = a"
| "scalar (Tn ts) = NaN"

definition pixel :: "tensor \<Rightarrow> nat \<Rightarrow> nat \<Rightarrow> f32" where
  "pixel g r c = scalar (slices (slices g ! r) ! c)"

definition grid :: "tensor \<Rightarrow> bool" where
  "grid g \<longleftrightarrow> \<not> is_Sc g \<and> length (slices g) = 28 \<and>
     list_all (\<lambda>row. \<not> is_Sc row \<and> length (slices row) = 28 \<and> list_all is_Sc (slices row)) (slices g)"

definition image_grid :: "tensor \<Rightarrow> tensor option" where
  "image_grid t =
     (if grid t then Some t
      else (case slices t of [g] \<Rightarrow> if grid g then Some g else None | _ \<Rightarrow> None))"

definition image_vector :: "tensor \<Rightarrow> f32 list" where
  "image_vector t =
     (case image_grid t of
        None \<Rightarrow> []
      | Some g \<Rightarrow> map (\<lambda>i. pixel g (i div 28) (i mod 28)) [0..<28 * 28])"

definition image_batch :: "tensor \<Rightarrow> bool" where
  "image_batch x \<longleftrightarrow> slices x \<noteq> [] \<and> list_all (\<lambda>t. image_grid t \<noteq> None) (slices x)"

text \<open>The order of \<^verbatim>\<open>argmax\<close>: a score beats another when it is greater, or NaN against a number.\<close>

definition beats :: "f32 \<Rightarrow> f32 \<Rightarrow> bool" where
  "beats a b \<longleftrightarrow> flt b a \<or> (a = NaN \<and> b \<noteq> NaN)"

text \<open>
  The index of the top class of a row of scores: the first NaN when the row has one,
  otherwise the first index whose score no other score exceeds.
\<close>

definition first_top :: "f32 list \<Rightarrow> nat \<Rightarrow> bool" where
  "first_top row i \<longleftrightarrow> i < length row \<and>
     (if NaN \<in> set row then row ! i = NaN \<and> (\<forall>j<i. row ! j \<noteq> NaN)
      else (\<forall>j<length row. fle (row ! j) (row ! i)) \<and> (\<forall>j<i. flt (row ! j) (row ! i)))"

text \<open>The number of rows of a batch whose top-1 class is the label.\<close>

definition top1_correct :: "f32 list list \<Rightarrow> nat list \<Rightarrow> nat" where
  "top1_correct pred y = length (filter (\<lambda>(row, l). argmax row = Inr l) (zip pred y))"

text \<open>The (examples so far, size) fields of the progress lines of an output.\<close>

fun progress_counts :: "line list \<Rightarrow> (nat \<times> nat) list" where
  "progress_counts [] = []"
| "progress_counts (ProgressLine loss current size' # ls) = (current, size') # progress_counts ls"
| "progress_counts (l # ls) = progress_counts ls"

text \<open>
  One training step on the batch (X, y), from the world u to the world v: the forward
  pass at the parameters of u returns an output, the loss function returns the loss of
  that output against y, the gradient buffers of v hold the gradient of that loss at the
  parameters of u and nothing else, and the parameters of v are the update rule applied
  to the parameters of u with that gradient.
\<close>

definition training_step ::
  "(('p \<Rightarrow> error + real) \<Rightarrow> 'p \<Rightarrow> 'g) \<Rightarrow> ('p \<Rightarrow> tensor \<Rightarrow> error + f32 list list) \<Rightarrow>
   (f32 list list \<Rightarrow> nat list \<Rightarrow> error + real) \<Rightarrow> ('p \<Rightarrow> 'g \<Rightarrow> 'p) \<Rightarrow>
   batch \<Rightarrow> ('p, 'g) world \<Rightarrow> ('p, 'g) world \<Rightarrow> bool" where
  "training_step autograd model loss_fn step b u v =
     (case model (params u) (Tn (fst b)) of
        Inl e \<Rightarrow> False
      | Inr pred \<Rightarrow>
          (case loss_fn pred (snd b) of
             Inl e \<Rightarrow> False
           | Inr loss \<Rightarrow>
               loss_of model loss_fn (fst b) (snd b) (params u) = Inr loss \<and>
               grad v = autograd (loss_of model loss_fn (fst b) (snd b)) (params u) \<and>
               params v = step (params u) (grad v)))"

text \<open>
  The outputs of an evaluation pass, batch by batch: the model's output \<open>pred\<close> on the
  batch, with one row that is not empty for each example, and the loss of \<open>pred\<close>
  against the labels; their sum of losses and their number of top-1 hits.
\<close>

definition total_loss :: "(f32 list list \<times> real) list \<Rightarrow> real" where
  "total_loss outs = sum_list (map snd outs)"

definition total_correct :: "batch list \<Rightarrow> (f32 list list \<times> real) list \<Rightarrow> nat" where
  "total_correct bs outs = sum_list (map2 (\<lambda>(X, y) (pred, loss). top1_correct pred y) bs outs)"

definition evaluated ::
  "(f32 list list \<Rightarrow> nat list \<Rightarrow> error + real) \<Rightarrow> ('p \<Rightarrow> tensor \<Rightarrow> error + f32 list list) \<Rightarrow>
   'p \<Rightarrow> batch \<Rightarrow> f32 list list \<times> real \<Rightarrow> bool" where
  "evaluated loss_fn model p b out \<longleftrightarrow>
     (case b of (X, y) \<Rightarrow> case out of (pred, loss) \<Rightarrow>
        model p (Tn X) = Inr pred \<and> loss_fn pred y = Inr loss \<and>
        length pred = length y \<and> [] \<notin> set pred)"

subsection \<open>Sample values\<close>

text \<open>
  A kernel that multiplies and adds from the left with the special values of IEEE 754 and
  without rounding: it returns what float32 returns wherever every partial result is a
  float32 value, as for the small integers of the samples below, and wherever a NaN
  enters the sum.
\<close>

fun fadd :: "f32 \<Rightarrow> f32 \<Rightarrow> f32" where
  "fadd NaN b = NaN"
| "fadd a NaN = NaN"
| "fadd (Fin x) (Fin y) = Fin (x + y)"
| "fadd PInf NInf = NaN"
| "fadd NInf PInf = NaN"
| "fadd PInf b = PInf"
| "fadd a PInf = PInf"
| "fadd NInf b = NInf"
| "fadd a NInf = NInf"

fun fmul :: "f32 \<Rightarrow> f32 \<Rightarrow> f32" where
  "fmul NaN b = NaN"
| "fmul a NaN = NaN"
| "fmul (Fin x) (Fin y) = Fin (x * y)"
| "fmul (Fin x) PInf = (if x = 0 then NaN else if 0 < x then PInf else NInf)"
| "fmul (Fin x) NInf = (if x = 0 then NaN else if 0 < x then NInf else PInf)"
| "fmul PInf (Fin y) = (if y = 0 then NaN else if 0 < y then PInf else NInf)"
| "fmul NInf (Fin y) = (if y = 0 then NaN else if 0 < y then NInf else PInf)"
| "fmul PInf PInf = PInf"
| "fmul PInf NInf = NInf"
| "fmul NInf PInf = NInf"
| "fmul NInf NInf = PInf"

definition exact_kernel :: kernel where
  "exact_kernel row v b = fadd (foldl fadd (Fin 0) (map2 fmul row v)) b"

text \<open>
  A network of the shapes of \<^verbatim>\<open>__init__\<close>. Unit 0 of the first layer sums the pixels,
  unit 1 sums their negatives, the second layer copies unit 0, and the output layer
  gives class 9 that sum and class 3 the bias 1; all other weights and biases are 0.
\<close>

definition sample_network :: NeuralNetwork where
  "sample_network =
     \<lparr>stack0 = \<lparr>weight = replicate 784 (Fin 1) # replicate 784 (Fin (- 1)) #
                          replicate 510 (replicate 784 (Fin 0)),
                bias = replicate 512 (Fin 0)\<rparr>,
      stack2 = \<lparr>weight = (Fin 1 # replicate 511 (Fin 0)) # replicate 511 (replicate 512 (Fin 0)),
                bias = replicate 512 (Fin 0)\<rparr>,
      stack4 = \<lparr>weight = replicate 9 (replicate 512 (Fin 0)) @ [Fin 1 # replicate 511 (Fin 0)],
                bias = [Fin 0, Fin 0, Fin 0, Fin 1, Fin 0, Fin 0, Fin 0, Fin 0, Fin 0, Fin 0]\<rparr>\<rparr>"

text \<open>Images of shape [1][28][28] with the same value at every pixel: black, white, NaN.\<close>

definition uniform_image :: "f32 \<Rightarrow> tensor" where
  "uniform_image a = Tn [Tn (replicate 28 (Tn (replicate 28 (Sc a))))]"

definition sample_image :: tensor where
  "sample_image = uniform_image (Fin 0)"

definition white_image :: tensor where
  "white_image = uniform_image (Fin 1)"

definition nan_image :: tensor where
  "nan_image = uniform_image NaN"

definition sample_world :: "(NeuralNetwork, real) world" where
  "sample_world = \<lparr>params = sample_network, grad = 5, training = True, stdout = []\<rparr>"

text \<open>
  A model of one parameter p whose output row is [p] for every example, with the sum of
  the outputs as loss, the difference quotient of step 1 as gradient (exact for that
  loss, which is linear in p), and gradient descent with learning rate 1/2; loaders of
  three and of 201 examples in batches of 2.
\<close>

definition toy_model :: "real \<Rightarrow> tensor \<Rightarrow> error + f32 list list" where
  "toy_model p x = Inr (map (\<lambda>t. [Fin p]) (slices x))"

fun finite_value :: "f32 \<Rightarrow> real" where
  "finite_value (Fin r) = r"
| "finite_value a = 0"

definition toy_loss :: "f32 list list \<Rightarrow> nat list \<Rightarrow> error + real" where
  "toy_loss pred y = Inr (sum_list (map finite_value (concat pred)))"

definition toy_autograd :: "(real \<Rightarrow> error + real) \<Rightarrow> real \<Rightarrow> real" where
  "toy_autograd f p = (case (f (p + 1), f p) of (Inr a, Inr b) \<Rightarrow> a - b | _ \<Rightarrow> 0)"

definition toy_sgd :: "real \<Rightarrow> real \<Rightarrow> real" where
  "toy_sgd p g = p - g / 2"

definition toy_world :: "(real, real) world" where
  "toy_world = \<lparr>params = 10, grad = 5, training = True, stdout = []\<rparr>"

definition toy_loader :: dataloader where
  "toy_loader = \<lparr>dataset = [(Sc (Fin 0), 0), (Sc (Fin 0), 1), (Sc (Fin 0), 2)], per_batch = 2\<rparr>"

definition partial_loader :: dataloader where
  "partial_loader = \<lparr>dataset = replicate 201 (Sc (Fin 0), 0), per_batch = 2\<rparr>"

text \<open>
  Loaders of a white image of class 9 and two black images of classes 3 and 9, of no
  example at all, and of 64 white images of class 9; a constant loss function; a loss
  function with the default reduction of \<^verbatim>\<open>nn.CrossEntropyLoss\<close>, the mean over the
  batch of a loss per example; a notebook whose two splits differ.
\<close>

definition mixed_loader :: dataloader where
  "mixed_loader = \<lparr>dataset = [(white_image, 9), (sample_image, 3), (sample_image, 9)], per_batch = 2\<rparr>"

definition empty_loader :: dataloader where
  "empty_loader = \<lparr>dataset = [], per_batch = 64\<rparr>"

definition full_loader :: dataloader where
  "full_loader = \<lparr>dataset = replicate 64 (white_image, 9), per_batch = 64\<rparr>"

definition two_loss :: "f32 list list \<Rightarrow> nat list \<Rightarrow> error + real" where
  "two_loss pred y = Inr 2"

definition mean_loss :: "(f32 list \<Rightarrow> nat \<Rightarrow> real) \<Rightarrow> f32 list list \<Rightarrow> nat list \<Rightarrow> error + real" where
  "mean_loss per_example pred y =
     (if length pred = length y
      then Inr (sum_list (map2 per_example pred y) / real (length pred))
      else Inl ValueError)"

definition sample_notebook :: notebook where
  "sample_notebook = \<lparr>training_data = [(sample_image, 9)], test_data = [(white_image, 0)]\<rparr>"

section \<open>Properties of the model\<close>

lemma relu_rectifier: "relu a = rectifier a"
  by (cases a) (auto simp: relu_def rectifier_def fle_def max_def)

lemma Linear_forward_shape:
  assumes "Linear_shape n_in n_out L" and "list_all (\<lambda>v. length v = n_in) X"
  shows "Linear_forward K L X = Inr (map (affine K L) X)"
  using assms by (auto simp: Linear_forward_def Linear_shape_def list_all_iff)

lemma affine_shape: "Linear_shape n_in n_out L \<Longrightarrow> length (affine K L v) = n_out"
  by (simp add: Linear_shape_def affine_def)

lemma length_layer_spec: "length (layer_spec K L n v) = n"
  by (simp add: layer_spec_def)

lemma relu_affine:
  assumes "Linear_shape n_in n_out L"
  shows "map relu (affine K L v) = layer_spec K L n_out v"
proof (rule nth_equalityI)
  show "length (map relu (affine K L v)) = length (layer_spec K L n_out v)"
    using affine_shape[OF assms] by (simp add: length_layer_spec)
next
  fix k assume "k < length (map relu (affine K L v))"
  then have k: "k < n_out" using affine_shape[OF assms] by simp
  with assms have "affine K L v ! k = K (weight L ! k) v (bias L ! k)"
    by (simp add: affine_def Linear_shape_def)
  with k affine_shape[OF assms, of K v] show "map relu (affine K L v) ! k = layer_spec K L n_out v ! k"
    by (simp add: layer_spec_def relu_rectifier)
qed

lemma Sequential_stack:
  assumes "NeuralNetwork_init m" and "list_all (\<lambda>v. length v = 28 * 28) X"
  shows "Sequential K (linear_relu_stack m) X = Inr (map (logits K m) X)"
proof -
  from assms(1) have s0: "Linear_shape (28 * 28) 512 (stack0 m)"
    and s2: "Linear_shape 512 512 (stack2 m)" and s4: "Linear_shape 512 10 (stack4 m)"
    by (simp_all add: NeuralNetwork_init_def)
  have a: "Linear_forward K (stack0 m) X = Inr (map (affine K (stack0 m)) X)"
    using Linear_forward_shape[OF s0 assms(2)] .
  have h1: "ReLU_forward (map (affine K (stack0 m)) X) = map (hidden1 K m) X"
    by (simp add: ReLU_forward_def hidden1_def relu_affine[OF s0])
  have l1: "list_all (\<lambda>v. length v = 512) (map (hidden1 K m) X)"
    by (simp add: list_all_iff hidden1_def length_layer_spec)
  have b: "Linear_forward K (stack2 m) (map (hidden1 K m) X) =
      Inr (map (affine K (stack2 m)) (map (hidden1 K m) X))"
    using Linear_forward_shape[OF s2 l1] .
  have h2: "ReLU_forward (map (affine K (stack2 m)) (map (hidden1 K m) X)) = map (hidden2 K m) X"
    by (simp add: ReLU_forward_def hidden2_def relu_affine[OF s2])
  have l2: "list_all (\<lambda>v. length v = 512) (map (hidden2 K m) X)"
    by (simp add: list_all_iff hidden2_def length_layer_spec)
  have c: "Linear_forward K (stack4 m) (map (hidden2 K m) X) =
      Inr (map (affine K (stack4 m)) (map (hidden2 K m) X))"
    using Linear_forward_shape[OF s4 l2] .
  have h3: "ReLU_forward (map (affine K (stack4 m)) (map (hidden2 K m) X)) = map (logits K m) X"
    by (simp add: ReLU_forward_def logits_def relu_affine[OF s4])
  show ?thesis
    by (simp add: linear_relu_stack_def bindE_def a h1 b h2 c h3 del: map_map)
qed

subsection \<open>Flattening an image\<close>

lemma nth_concat_uniform:
  assumes "\<forall>xs \<in> set xss. length xs = n" and "i < n * length xss"
  shows "concat xss ! i = xss ! (i div n) ! (i mod n)"
  using assms
proof (induction xss arbitrary: i)
  case Nil
  then show ?case by simp
next
  case (Cons xs xss)
  then have len: "length xs = n" by simp
  show ?case
  proof (cases "i < n")
    case True
    with len show ?thesis by (simp add: nth_append)
  next
    case False
    then have ge: "n \<le> i" by simp
    from Cons.prems(2) have "n \<noteq> 0" by (cases n) auto
    have "i - n < n * length xss" using Cons.prems(2) ge by (simp add: algebra_simps)
    with Cons have IH: "concat xss ! (i - n) = xss ! ((i - n) div n) ! ((i - n) mod n)" by simp
    have d: "i div n = Suc ((i - n) div n)" using ge \<open>n \<noteq> 0\<close>
      by (metis le_div_geq neq0_conv)
    have md: "i mod n = (i - n) mod n" using ge by (simp add: le_mod_geq)
    show ?thesis using False len IH by (simp add: nth_append d md)
  qed
qed

lemma length_concat_uniform:
  "\<forall>xs \<in> set xss. length xs = n \<Longrightarrow> length (concat xss) = n * length xss"
  by (induction xss) simp_all

lemma flat_all_scalars: "list_all is_Sc cells \<Longrightarrow> concat (map flat_all cells) = map scalar cells"
proof (induction cells)
  case Nil
  then show ?case by simp
next
  case (Cons c cells)
  then show ?case by (cases c) simp_all
qed

lemma flat_all_grid:
  assumes "grid g"
  shows "flat_all g = map (\<lambda>i. pixel g (i div 28) (i mod 28)) [0..<28 * 28]"
proof -
  from assms obtain rows where g: "g = Tn rows" by (cases g) (auto simp: grid_def)
  with assms have n: "length rows = 28"
    and rows: "\<forall>row \<in> set rows. \<not> is_Sc row \<and> length (slices row) = 28 \<and> list_all is_Sc (slices row)"
    by (auto simp: grid_def list_all_iff)
  have row: "flat_all row = map scalar (slices row)" if "row \<in> set rows" for row
  proof -
    from that rows have "\<not> is_Sc row" and "list_all is_Sc (slices row)" by blast+
    then obtain cells where "row = Tn cells" "list_all is_Sc cells"
      by (cases row) auto
    then show ?thesis by (simp add: flat_all_scalars)
  qed
  let ?xss = "map (\<lambda>row. map scalar (slices row)) rows"
  have f: "flat_all g = concat ?xss"
    using row by (simp add: g cong: map_cong)
  have u: "\<forall>xs \<in> set ?xss. length xs = 28" using rows by auto
  show ?thesis
  proof (rule nth_equalityI)
    show "length (flat_all g) = length (map (\<lambda>i. pixel g (i div 28) (i mod 28)) [0..<28 * 28])"
      using length_concat_uniform[OF u] n by (simp add: f)
  next
    fix i assume "i < length (flat_all g)"
    then have i: "i < 28 * 28" using length_concat_uniform[OF u] n by (simp add: f)
    then have i': "i < 28 * length ?xss" using n by simp
    have r: "i div 28 < 28" using i by (simp add: less_mult_imp_div_less)
    have "flat_all g ! i = ?xss ! (i div 28) ! (i mod 28)"
      unfolding f using u i' by (rule nth_concat_uniform)
    also have "\<dots> = scalar (slices (rows ! (i div 28)) ! (i mod 28))"
      using r n rows by (simp add: list_all_iff)
    also have "\<dots> = pixel g (i div 28) (i mod 28)"
      by (simp add: pixel_def g)
    finally show "flat_all g ! i = map (\<lambda>i. pixel g (i div 28) (i mod 28)) [0..<28 * 28] ! i"
      using i by simp
  qed
qed

lemma flat_all_image:
  assumes "image_grid t \<noteq> None"
  shows "\<not> is_Sc t" and "flat_all t = image_vector t" and "length (image_vector t) = 28 * 28"
proof -
  from assms obtain g where ig: "image_grid t = Some g" by auto
  then have gg: "grid g"
    by (auto simp: image_grid_def split: if_splits list.splits)
  show "length (image_vector t) = 28 * 28" by (simp add: image_vector_def ig)
  show "\<not> is_Sc t"
    using ig by (cases t) (auto simp: image_grid_def grid_def split: if_splits)
  have v: "image_vector t = flat_all g"
    using flat_all_grid[OF gg] by (simp add: image_vector_def ig)
  show "flat_all t = image_vector t"
  proof (cases "grid t")
    case True
    with ig have "g = t" by (simp add: image_grid_def)
    with v show ?thesis by simp
  next
    case False
    with ig have "slices t = [g]"
      by (auto simp: image_grid_def split: if_splits list.splits)
    then have "t = Tn [g]" by (cases t) auto
    then have "flat_all t = flat_all g" by simp
    with v show ?thesis by simp
  qed
qed

lemma forward_logits:
  assumes "NeuralNetwork_init m" and "image_batch x"
  shows "forward K m x = Inr (map (\<lambda>t. logits K m (image_vector t)) (slices x))"
proof -
  from assms(2) obtain ts where x: "x = Tn ts" and ne: "ts \<noteq> []"
    and im: "\<forall>t \<in> set ts. image_grid t \<noteq> None"
    by (cases x) (auto simp: image_batch_def list_all_iff)
  have ns: "\<not> list_ex is_Sc ts" using im flat_all_image(1) by (auto simp: list_ex_iff)
  have fl: "map flat_all ts = map image_vector ts"
    using im flat_all_image(2) by simp
  have len: "list_all (\<lambda>v. length v = 28 * 28) (map image_vector ts)"
    using im flat_all_image(3) by (simp add: list_all_iff)
  show ?thesis
    using Sequential_stack[OF assms(1) len, of K] ns ne
    by (simp add: forward_def bindE_def x fl comp_def)
qed

lemma Sequential_ends_with_ReLU:
  "Sequential K (ls @ [ReLU]) X = Inr Y \<Longrightarrow> \<forall>row \<in> set Y. \<forall>a \<in> set row. a = NaN \<or> fle (Fin 0) a"
proof (induction ls arbitrary: X)
  case Nil
  have "relu a = NaN \<or> fle (Fin 0) (relu a)" for a
    by (cases a) (auto simp: relu_def fle_def)
  then have "\<forall>row \<in> set (map (map relu) X). \<forall>a \<in> set row. a = NaN \<or> fle (Fin 0) a"
    by auto
  with Nil show ?case by (simp add: bindE_def ReLU_forward_def)
next
  case (Cons l ls)
  then show ?case by (auto simp: bindE_def split: sum.splits)
qed

lemma forward_rows:
  assumes "forward K m x = Inr out"
  shows "\<forall>row \<in> set out. \<forall>a \<in> set row. a = NaN \<or> fle (Fin 0) a"
proof -
  have st: "linear_relu_stack m =
      [Linear (stack0 m), ReLU, Linear (stack2 m), ReLU, Linear (stack4 m)] @ [ReLU]"
    by (simp add: linear_relu_stack_def)
  from assms obtain x1 where "Sequential K (linear_relu_stack m) x1 = Inr out"
    by (auto simp: forward_def bindE_def split: sum.splits)
  then show ?thesis unfolding st by (rule Sequential_ends_with_ReLU)
qed

subsection \<open>The sample kernel and network\<close>

lemma foldl_fadd_Fin:
  "foldl fadd (Fin a) (map2 fmul (map Fin ws) (map Fin vs)) = Fin (a + sum_list (map2 (*) ws vs))"
proof (induction ws arbitrary: a vs)
  case Nil
  then show ?case by simp
next
  case (Cons w ws)
  then show ?case by (cases vs) (simp_all add: add.assoc)
qed

lemma exact_kernel_Fin:
  "exact_kernel (map Fin ws) (map Fin vs) (Fin b) = Fin (sum_list (map2 (*) ws vs) + b)"
  by (simp add: exact_kernel_def foldl_fadd_Fin)

lemma kernel_uniform:
  "exact_kernel (replicate n (Fin c)) (replicate n (Fin p)) (Fin b) = Fin (real n * (c * p) + b)"
  using exact_kernel_Fin[of "replicate n c" "replicate n p" b]
  by (simp add: zip_replicate sum_list_replicate)

lemma kernel_first:
  "exact_kernel (Fin c # replicate n (Fin 0)) (Fin s # replicate n (Fin t)) (Fin b) = Fin (c * s + b)"
  using exact_kernel_Fin[of "c # replicate n 0" "s # replicate n t" b]
  by (simp add: zip_replicate sum_list_replicate)

lemma kernel_zero_row:
  "exact_kernel (replicate (Suc n) (Fin 0)) (Fin s # replicate n (Fin t)) (Fin b) = Fin b"
  using exact_kernel_Fin[of "replicate (Suc n) 0" "s # replicate n t" b]
  by (simp add: zip_replicate sum_list_replicate)

lemma foldl_fadd_NaN: "foldl fadd NaN xs = NaN"
  by (induction xs) simp_all

lemma kernel_NaN:
  assumes "length row = n" and "0 < n"
  shows "exact_kernel row (replicate n NaN) b = NaN"
proof -
  have "map2 fmul row (replicate n NaN) = replicate n NaN"
    using assms(1)
  proof (induction row arbitrary: n)
    case Nil
    then show ?case by simp
  next
    case (Cons r row)
    then obtain k where "n = Suc k" by (cases n) auto
    with Cons show ?case by (cases r) simp_all
  qed
  moreover obtain k where "n = Suc k" using assms(2) by (cases n) auto
  ultimately show ?thesis by (simp add: exact_kernel_def foldl_fadd_NaN)
qed

lemma layer_spec_NaN:
  assumes "Linear_shape n_in n_out L" and "0 < n_in"
  shows "layer_spec exact_kernel L n_out (replicate n_in NaN) = replicate n_out NaN"
proof (rule nth_equalityI)
  show "length (layer_spec exact_kernel L n_out (replicate n_in NaN)) = length (replicate n_out NaN)"
    by (simp add: length_layer_spec)
next
  fix k assume "k < length (layer_spec exact_kernel L n_out (replicate n_in NaN))"
  then have k: "k < n_out" by (simp add: length_layer_spec)
  with assms(1) have "length (weight L ! k) = n_in"
    by (simp add: Linear_shape_def list_all_length)
  then have "exact_kernel (weight L ! k) (replicate n_in NaN) (bias L ! k) = NaN"
    using assms(2) by (rule kernel_NaN)
  with k show "layer_spec exact_kernel L n_out (replicate n_in NaN) ! k = replicate n_out NaN ! k"
    by (simp add: layer_spec_def rectifier_def)
qed

lemma logits_NaN:
  assumes "NeuralNetwork_init m"
  shows "logits exact_kernel m (replicate (28 * 28) NaN) = replicate 10 NaN"
proof -
  from assms have s0: "Linear_shape (28 * 28) 512 (stack0 m)"
    and s2: "Linear_shape 512 512 (stack2 m)" and s4: "Linear_shape 512 10 (stack4 m)"
    by (simp_all add: NeuralNetwork_init_def)
  have "hidden1 exact_kernel m (replicate (28 * 28) NaN) = replicate 512 NaN"
    unfolding hidden1_def using s0 by (rule layer_spec_NaN) simp
  moreover have "layer_spec exact_kernel (stack2 m) 512 (replicate 512 NaN) = replicate 512 NaN"
    using s2 by (rule layer_spec_NaN) simp
  moreover have "layer_spec exact_kernel (stack4 m) 10 (replicate 512 NaN) = replicate 10 NaN"
    using s4 by (rule layer_spec_NaN) simp
  ultimately show ?thesis by (simp add: logits_def hidden2_def)
qed

lemma replicate_two: "n = Suc (Suc k) \<Longrightarrow> replicate n a = a # a # replicate k a"
  by simp

lemma sample_network_init: "NeuralNetwork_init sample_network"
  by (simp add: NeuralNetwork_init_def sample_network_def Linear_shape_def list_all_iff)

lemma sample_hidden1:
  assumes "0 \<le> p"
  shows "hidden1 exact_kernel sample_network (replicate 784 (Fin p)) = Fin (784 * p) # replicate 511 (Fin 0)"
proof -
  have s: "Linear_shape (28 * 28) 512 (stack0 sample_network)"
    using sample_network_init by (simp add: NeuralNetwork_init_def)
  have b: "replicate 512 (Fin 0) = Fin 0 # Fin 0 # replicate 510 (Fin 0)"
    by (rule replicate_two) simp
  have "affine exact_kernel (stack0 sample_network) (replicate 784 (Fin p)) =
      Fin (784 * p) # Fin (- (784 * p)) # replicate 510 (Fin 0)"
    by (simp add: affine_def sample_network_def b zip_replicate kernel_uniform)
  then have "map relu (affine exact_kernel (stack0 sample_network) (replicate 784 (Fin p))) =
      Fin (784 * p) # Fin 0 # replicate 510 (Fin 0)"
    using assms by (simp add: relu_def fle_def)
  moreover have "Fin 0 # replicate 510 (Fin 0) = replicate 511 (Fin 0)"
    by (simp add: replicate_Suc[symmetric] del: replicate_Suc)
  ultimately show ?thesis
    using relu_affine[OF s, of exact_kernel] by (simp add: hidden1_def)
qed

lemma sample_hidden2:
  assumes "0 \<le> p"
  shows "hidden2 exact_kernel sample_network (replicate 784 (Fin p)) = Fin (784 * p) # replicate 511 (Fin 0)"
proof -
  have s: "Linear_shape 512 512 (stack2 sample_network)"
    using sample_network_init by (simp add: NeuralNetwork_init_def)
  have b: "replicate 512 (Fin 0) = Fin 0 # replicate 511 (Fin 0)"
    by (simp add: replicate_Suc[symmetric] del: replicate_Suc)
  have z: "exact_kernel (replicate 512 (Fin 0)) (Fin (784 * p) # replicate 511 (Fin 0)) (Fin 0) = Fin 0"
    using kernel_zero_row[of 511 "784 * p" 0 0] by simp
  have "affine exact_kernel (stack2 sample_network) (Fin (784 * p) # replicate 511 (Fin 0)) =
      Fin (784 * p) # replicate 511 (Fin 0)"
    unfolding affine_def sample_network_def
    by (simp add: b zip_replicate kernel_first)
  then have "map relu (affine exact_kernel (stack2 sample_network) (Fin (784 * p) # replicate 511 (Fin 0))) =
      Fin (784 * p) # replicate 511 (Fin 0)"
    using assms by (simp add: relu_def fle_def)
  then show ?thesis
    using relu_affine[OF s, of exact_kernel] by (simp add: hidden2_def sample_hidden1[OF assms])
qed

lemma sample_logits:
  assumes "0 \<le> p"
  shows "logits exact_kernel sample_network (replicate 784 (Fin p)) =
     [Fin 0, Fin 0, Fin 0, Fin 1, Fin 0, Fin 0, Fin 0, Fin 0, Fin 0, Fin (784 * p)]"
proof -
  have s: "Linear_shape 512 10 (stack4 sample_network)"
    using sample_network_init by (simp add: NeuralNetwork_init_def)
  have nine: "replicate 9 r = [r, r, r, r, r, r, r, r, r]" for r :: "f32 list"
    by (simp add: numeral_eq_Suc)
  have z: "exact_kernel (replicate 512 (Fin 0)) (Fin (784 * p) # replicate 511 (Fin 0)) (Fin b) = Fin b" for b
    using kernel_zero_row[of 511 "784 * p" 0 b] by simp
  have "affine exact_kernel (stack4 sample_network) (Fin (784 * p) # replicate 511 (Fin 0)) =
      [Fin 0, Fin 0, Fin 0, Fin 1, Fin 0, Fin 0, Fin 0, Fin 0, Fin 0, Fin (784 * p)]"
    unfolding affine_def sample_network_def
    by (simp add: nine z kernel_first)
  then have "map relu (affine exact_kernel (stack4 sample_network) (Fin (784 * p) # replicate 511 (Fin 0))) =
      [Fin 0, Fin 0, Fin 0, Fin 1, Fin 0, Fin 0, Fin 0, Fin 0, Fin 0, Fin (784 * p)]"
    using assms by (simp add: relu_def fle_def)
  then show ?thesis
    using relu_affine[OF s, of exact_kernel] by (simp add: logits_def sample_hidden2[OF assms])
qed

lemma concat_replicate_replicate: "concat (replicate m (replicate n a)) = replicate (m * n) a"
  by (induction m) (simp_all add: replicate_add)

lemma uniform_image_grid: "image_grid (uniform_image a) \<noteq> None"
  by (simp add: image_grid_def uniform_image_def grid_def list_all_iff)

lemma uniform_image_vector: "image_vector (uniform_image a) = replicate 784 a"
proof -
  have "image_vector (uniform_image a) = flat_all (uniform_image a)"
    using flat_all_image(2)[OF uniform_image_grid] by simp
  then show ?thesis
    by (simp add: uniform_image_def concat_replicate_replicate)
qed

lemma uniform_batch: "image_batch (Tn (uniform_image a # map uniform_image as))"
  using uniform_image_grid by (auto simp: image_batch_def list_all_iff)

lemma uniform_single: "image_batch (uniform_image a)"
  by (simp add: image_batch_def uniform_image_def image_grid_def grid_def list_all_iff)

text \<open>
  C6. For parameters of the shapes of \<^verbatim>\<open>__init__\<close> and an input whose slices are images,
  the model returns for every image the 10 logits of the network on the vector of its 784
  pixels: two hidden layers of 512 units and an output layer of 10 units, every unit the
  rectifier of the kernel's output for its weight row and bias.
\<close>

theorem forward_two_hidden_layers:
  assumes "NeuralNetwork_init m" and "image_batch x"
  shows "forward K m x = Inr (map (\<lambda>t. logits K m (image_vector t)) (slices x)) \<and>
         list_all (\<lambda>t. length (image_vector t) = 28 * 28 \<and>
                        length (hidden1 K m (image_vector t)) = 512 \<and>
                        length (hidden2 K m (image_vector t)) = 512 \<and>
                        length (logits K m (image_vector t)) = 10) (slices x)"
proof -
  from assms(2) have "\<forall>t \<in> set (slices x). length (image_vector t) = 28 * 28"
    using flat_all_image(3) by (auto simp: image_batch_def list_all_iff)
  then show ?thesis
    using forward_logits[OF assms, of K]
    by (simp add: list_all_iff hidden1_def hidden2_def logits_def length_layer_spec)
qed

theorem forward_two_hidden_layers_witness:
  "NeuralNetwork_init sample_network \<and> image_batch (Tn [white_image, sample_image]) \<and>
   forward exact_kernel sample_network (Tn [white_image, sample_image]) =
     Inr [[Fin 0, Fin 0, Fin 0, Fin 1, Fin 0, Fin 0, Fin 0, Fin 0, Fin 0, Fin 784],
          [Fin 0, Fin 0, Fin 0, Fin 1, Fin 0, Fin 0, Fin 0, Fin 0, Fin 0, Fin 0]]"
proof -
  have b: "image_batch (Tn [white_image, sample_image])"
    using uniform_batch[of "Fin 1" "[Fin 0]"] by (simp add: white_image_def sample_image_def)
  have "forward exact_kernel sample_network (Tn [white_image, sample_image]) =
      Inr (map (\<lambda>t. logits exact_kernel sample_network (image_vector t))
             (slices (Tn [white_image, sample_image])))"
    using forward_two_hidden_layers[OF sample_network_init b, of exact_kernel] by (rule conjunct1)
  then have "forward exact_kernel sample_network (Tn [white_image, sample_image]) =
     Inr [[Fin 0, Fin 0, Fin 0, Fin 1, Fin 0, Fin 0, Fin 0, Fin 0, Fin 0, Fin 784],
          [Fin 0, Fin 0, Fin 0, Fin 1, Fin 0, Fin 0, Fin 0, Fin 0, Fin 0, Fin 0]]"
    using sample_logits[of 1] sample_logits[of 0]
    by (simp add: white_image_def sample_image_def uniform_image_vector)
  with sample_network_init b show ?thesis by simp
qed

text \<open>
  C10, with NaN set apart. The last layer of the stack is a rectifier, so no component of
  an output row of the model is negative: every component is non-negative or NaN.
\<close>

theorem forward_never_negative:
  assumes "forward K m x = Inr out"
  shows "\<forall>row \<in> set out. \<forall>a \<in> set row. a = NaN \<or> fle (Fin 0) a"
  using assms by (rule forward_rows)

lemma forward_white:
  "forward exact_kernel sample_network white_image =
     Inr [[Fin 0, Fin 0, Fin 0, Fin 1, Fin 0, Fin 0, Fin 0, Fin 0, Fin 0, Fin 784]]"
proof -
  have g: "image_grid (Tn (replicate 28 (Tn (replicate 28 (Sc (Fin 1)))))) \<noteq> None"
    by (simp add: image_grid_def grid_def list_all_iff)
  have "image_vector (Tn (replicate 28 (Tn (replicate 28 (Sc (Fin 1)))))) = replicate 784 (Fin 1)"
    using flat_all_image(2)[OF g] by (simp add: concat_replicate_replicate)
  then show ?thesis
    using forward_logits[OF sample_network_init uniform_single[of "Fin 1"], of exact_kernel]
      sample_logits[of 1]
    by (simp add: white_image_def uniform_image_def)
qed

theorem forward_never_negative_witness:
  "forward exact_kernel sample_network white_image =
     Inr [[Fin 0, Fin 0, Fin 0, Fin 1, Fin 0, Fin 0, Fin 0, Fin 0, Fin 0, Fin 784]] \<and>
   list_all (list_all (\<lambda>a. a = NaN \<or> fle (Fin 0) a))
     [[Fin 0, Fin 0, Fin 0, Fin 1, Fin 0, Fin 0, Fin 0, Fin 0, Fin 0, Fin 784]]"
  using forward_never_negative[OF forward_white] forward_white
  by (simp add: list_all_iff)

text \<open>
  C10 fails on an image whose pixels are NaN: every weighted sum is NaN, the rectifiers
  pass it on, and the ten outputs are NaN, which is not \<open>\<ge> 0\<close>.
\<close>

theorem forward_nan_counterexample:
  "NeuralNetwork_init sample_network \<and> image_batch nan_image \<and>
   forward exact_kernel sample_network nan_image =
     Inr [[NaN, NaN, NaN, NaN, NaN, NaN, NaN, NaN, NaN, NaN]] \<and>
   \<not> fle (Fin 0) NaN"
proof -
  have g: "image_grid (Tn (replicate 28 (Tn (replicate 28 (Sc NaN))))) \<noteq> None"
    by (simp add: image_grid_def grid_def list_all_iff)
  have v: "image_vector (Tn (replicate 28 (Tn (replicate 28 (Sc NaN))))) = replicate (28 * 28) NaN"
    using flat_all_image(2)[OF g] by (simp add: concat_replicate_replicate)
  have "replicate 10 NaN = [NaN, NaN, NaN, NaN, NaN, NaN, NaN, NaN, NaN, NaN]"
    by (simp add: numeral_eq_Suc)
  then have "forward exact_kernel sample_network nan_image =
      Inr [[NaN, NaN, NaN, NaN, NaN, NaN, NaN, NaN, NaN, NaN]]"
    using forward_logits[OF sample_network_init uniform_single[of NaN], of exact_kernel]
      logits_NaN[OF sample_network_init] v
    by (simp add: nan_image_def uniform_image_def)
  then show ?thesis
    using sample_network_init uniform_single[of NaN] by (simp add: nan_image_def fle_def)
qed

section \<open>Class selection\<close>

lemma beats_irrefl: "\<not> beats a a"
  by (cases a) (simp_all add: beats_def)

lemma beats_replace:
  assumes "\<not> beats x b" and "beats a b"
  shows "\<not> beats x a" and "beats a x"
  using assms by (cases x; cases a; cases b; simp add: beats_def)+

lemma argmax_from_scan:
  assumes "i = length pre" and "best < i" and "bv = pre ! best"
    and "\<forall>j<i. \<not> beats (pre ! j) bv" and "\<forall>j<best. beats bv (pre ! j)"
  shows "argmax_from best bv i as < length (pre @ as) \<and>
         (\<forall>j<length (pre @ as). \<not> beats ((pre @ as) ! j) ((pre @ as) ! argmax_from best bv i as)) \<and>
         (\<forall>j<argmax_from best bv i as. beats ((pre @ as) ! argmax_from best bv i as) ((pre @ as) ! j))"
  using assms
proof (induction as arbitrary: best bv i pre)
  case Nil
  then show ?case by simp
next
  case (Cons a as)
  let ?pre = "pre @ [a]"
  show ?case
  proof (cases "beats a bv")
    case True
    have "argmax_from i a (Suc i) as < length (?pre @ as) \<and>
         (\<forall>j<length (?pre @ as). \<not> beats ((?pre @ as) ! j) ((?pre @ as) ! argmax_from i a (Suc i) as)) \<and>
         (\<forall>j<argmax_from i a (Suc i) as. beats ((?pre @ as) ! argmax_from i a (Suc i) as) ((?pre @ as) ! j))"
    proof (rule Cons.IH)
      show "Suc i = length ?pre" using Cons.prems(1) by simp
      show "i < Suc i" by simp
      show "a = ?pre ! i" using Cons.prems(1) by simp
      show "\<forall>j<Suc i. \<not> beats (?pre ! j) a"
        using Cons.prems(1,4) True beats_replace(1) beats_irrefl
        by (auto simp: nth_append less_Suc_eq)
      show "\<forall>j<i. beats a (?pre ! j)"
        using Cons.prems(1,4) True beats_replace(2) by (auto simp: nth_append)
    qed
    moreover have "argmax_from best bv i (a # as) = argmax_from i a (Suc i) as"
      using True by (auto simp: beats_def)
    ultimately show ?thesis by (simp del: argmax_from.simps)
  next
    case False
    have "argmax_from best bv (Suc i) as < length (?pre @ as) \<and>
         (\<forall>j<length (?pre @ as). \<not> beats ((?pre @ as) ! j) ((?pre @ as) ! argmax_from best bv (Suc i) as)) \<and>
         (\<forall>j<argmax_from best bv (Suc i) as. beats ((?pre @ as) ! argmax_from best bv (Suc i) as) ((?pre @ as) ! j))"
    proof (rule Cons.IH)
      show "Suc i = length ?pre" using Cons.prems(1) by simp
      show "best < Suc i" using Cons.prems(2) by simp
      show "bv = ?pre ! best" using Cons.prems(1,2,3) by (simp add: nth_append)
      show "\<forall>j<Suc i. \<not> beats (?pre ! j) bv"
        using Cons.prems(1,4) False by (auto simp: nth_append less_Suc_eq)
      show "\<forall>j<best. beats bv (?pre ! j)"
        using Cons.prems(1,2,5) by (auto simp: nth_append)
    qed
    moreover have "argmax_from best bv i (a # as) = argmax_from best bv (Suc i) as"
      using False by (auto simp: beats_def)
    ultimately show ?thesis by (simp del: argmax_from.simps)
  qed
qed

lemma argmax_scan:
  assumes "argmax v = Inr i"
  shows "i < length v \<and> (\<forall>j<length v. \<not> beats (v ! j) (v ! i)) \<and> (\<forall>j<i. beats (v ! i) (v ! j))"
proof (cases v)
  case Nil
  with assms show ?thesis by (simp add: argmax_def)
next
  case (Cons a as)
  with assms have i: "i = argmax_from 0 a 1 as" by (simp add: argmax_def)
  have "argmax_from 0 a 1 as < length ([a] @ as) \<and>
         (\<forall>j<length ([a] @ as). \<not> beats (([a] @ as) ! j) (([a] @ as) ! argmax_from 0 a 1 as)) \<and>
         (\<forall>j<argmax_from 0 a 1 as. beats (([a] @ as) ! argmax_from 0 a 1 as) (([a] @ as) ! j))"
    by (rule argmax_from_scan) (simp_all add: beats_irrefl)
  with i Cons show ?thesis by simp
qed

lemma beats_NaN: "beats NaN b \<longleftrightarrow> b \<noteq> NaN"
  by (cases b) (simp_all add: beats_def)

lemma beats_numbers:
  assumes "a \<noteq> NaN" and "b \<noteq> NaN"
  shows "beats a b \<longleftrightarrow> flt b a" and "\<not> beats a b \<longleftrightarrow> fle a b"
  using assms by (cases a; cases b; auto simp: beats_def fle_def)+

lemma argmax_first_top:
  assumes "argmax v = Inr i"
  shows "first_top v i"
proof -
  from argmax_scan[OF assms] have i: "i < length v"
    and nb: "\<forall>j<length v. \<not> beats (v ! j) (v ! i)" and b: "\<forall>j<i. beats (v ! i) (v ! j)"
    by auto
  show ?thesis
  proof (cases "NaN \<in> set v")
    case True
    then obtain j where j: "j < length v" "v ! j = NaN" by (auto simp: in_set_conv_nth)
    with nb have "\<not> beats NaN (v ! i)" by metis
    then have vi: "v ! i = NaN" by (simp add: beats_NaN)
    with b have "\<forall>j<i. v ! j \<noteq> NaN" by (simp add: beats_NaN)
    with True vi i show ?thesis by (simp add: first_top_def)
  next
    case False
    then have num: "\<forall>j<length v. v ! j \<noteq> NaN" by (auto simp: in_set_conv_nth)
    have "\<forall>j<length v. fle (v ! j) (v ! i)"
      using nb num i beats_numbers(2) by blast
    moreover have "\<forall>j<i. flt (v ! j) (v ! i)"
      using b num i beats_numbers(1) by (metis less_trans)
    ultimately show ?thesis using False i by (simp add: first_top_def)
  qed
qed

lemma argmax_nonempty: "v \<noteq> [] \<Longrightarrow> \<exists>i. argmax v = Inr i"
  by (cases v) (simp_all add: argmax_def)

lemma length_classes: "length classes = 10"
  by (simp add: classes_def)

section \<open>Inference\<close>

text \<open>
  C9. For a network of the shapes of \<^verbatim>\<open>__init__\<close>, a first item of the test split
  that is an image, and a label below 10, the inference cell takes the first row of the
  model's output, the 10 logits of the image, and prints the entry of \<^verbatim>\<open>classes\<close>, a
  table of 10 names, at the index of their top class (and the entry at the label).
\<close>

theorem inference_top_class:
  assumes "NeuralNetwork_init m" and "td = (x, y) # rest" and "image_batch x" and "y < 10"
  shows "length classes = 10 \<and>
         (\<exists>rows. forward K m x = Inr (logits K m (image_vector (hd (slices x))) # rows)) \<and>
         (\<exists>i<10. first_top (logits K m (image_vector (hd (slices x)))) i \<and>
                  inference K m td = Inr (PredictedLine (classes ! i) (classes ! y)))"
proof -
  let ?l = "logits K m (image_vector (hd (slices x)))"
  from assms(3) obtain t ts where s: "slices x = t # ts"
    by (cases "slices x") (auto simp: image_batch_def)
  have f: "forward K m x = Inr (?l # map (\<lambda>t. logits K m (image_vector t)) ts)"
    using forward_logits[OF assms(1,3), of K] s by simp
  have len: "length ?l = 10" by (simp add: logits_def length_layer_spec)
  then have "?l \<noteq> []" by auto
  then obtain i where i: "argmax ?l = Inr i" using argmax_nonempty by blast
  have ft: "first_top ?l i" using i by (rule argmax_first_top)
  then have i10: "i < 10" using len by (simp add: first_top_def)
  have "inference K m td = Inr (PredictedLine (classes ! i) (classes ! y))"
    using i10 assms(4) by (simp add: inference_def assms(2) getitem_def bindE_def f i length_classes)
  with f ft i10 show ?thesis by (auto simp: length_classes)
qed

lemma sample_logits_low:
  "i < 9 \<Longrightarrow> [Fin 0, Fin 0, Fin 0, Fin 1, Fin 0, Fin 0, Fin 0, Fin 0, Fin 0, Fin 784] ! i = Fin 0 \<or>
             [Fin 0, Fin 0, Fin 0, Fin 1, Fin 0, Fin 0, Fin 0, Fin 0, Fin 0, Fin 784] ! i = Fin 1"
  by (auto simp: numeral_eq_Suc less_Suc_eq)

theorem inference_top_class_witness:
  "NeuralNetwork_init sample_network \<and> image_batch white_image \<and> (9::nat) < 10 \<and>
   inference exact_kernel sample_network [(white_image, 9)] =
     Inr (PredictedLine ''Ankle boot'' ''Ankle boot'')"
proof -
  let ?l = "[Fin 0, Fin 0, Fin 0, Fin 1, Fin 0, Fin 0, Fin 0, Fin 0, Fin 0, Fin 784]"
  have w: "image_batch white_image"
    using uniform_single[of "Fin 1"] by (simp add: white_image_def)
  have "hd (slices white_image) = Tn (replicate 28 (Tn (replicate 28 (Sc (Fin 1)))))"
    by (simp add: white_image_def uniform_image_def)
  moreover have g: "image_grid (Tn (replicate 28 (Tn (replicate 28 (Sc (Fin 1)))))) \<noteq> None"
    by (simp add: image_grid_def grid_def list_all_iff)
  have "image_vector (Tn (replicate 28 (Tn (replicate 28 (Sc (Fin 1)))))) = replicate 784 (Fin 1)"
    using flat_all_image(2)[OF g] by (simp add: concat_replicate_replicate)
  ultimately have l: "logits exact_kernel sample_network (image_vector (hd (slices white_image))) = ?l"
    using sample_logits[of 1] by simp
  have "\<exists>i<10. first_top ?l i \<and>
      inference exact_kernel sample_network [(white_image, 9)] =
        Inr (PredictedLine (classes ! i) (classes ! 9))"
    using inference_top_class[OF sample_network_init refl w, where y = 9 and rest = "[]" and K = exact_kernel]
    by (simp add: l)
  then obtain i where i: "i < 10" and ft: "first_top ?l i"
    and r: "inference exact_kernel sample_network [(white_image, 9)] =
        Inr (PredictedLine (classes ! i) (classes ! 9))"
    by blast
  have "NaN \<notin> set ?l" by simp
  with ft have mx: "\<forall>j<length ?l. fle (?l ! j) (?l ! i)" by (simp add: first_top_def)
  have "i = 9"
  proof (rule ccontr)
    assume "i \<noteq> 9"
    with i have "i < 9" by simp
    then have "?l ! i = Fin 0 \<or> ?l ! i = Fin 1" by (rule sample_logits_low)
    moreover have "fle (?l ! 9) (?l ! i)" using mx[rule_format, of 9] by simp
    ultimately show False by (auto simp: fle_def)
  qed
  with r have "inference exact_kernel sample_network [(white_image, 9)] =
      Inr (PredictedLine ''Ankle boot'' ''Ankle boot'')"
    by (simp add: classes_def)
  then show ?thesis using sample_network_init w by simp
qed

section \<open>The data loader\<close>

lemma chunks_Nil: "chunks n [] = []"
  by (simp add: chunks.simps)

lemma chunks_step: "n \<noteq> 0 \<Longrightarrow> xs \<noteq> [] \<Longrightarrow> chunks n xs = take n xs # chunks n (drop n xs)"
  by (subst chunks.simps) simp

lemma concat_chunks: "n \<noteq> 0 \<Longrightarrow> concat (chunks n xs) = xs"
proof (induction n xs rule: chunks.induct)
  case (1 n xs)
  show ?case
  proof (cases "xs = []")
    case True
    then show ?thesis by (simp add: chunks_Nil)
  next
    case False
    with 1 show ?thesis by (simp add: chunks_step)
  qed
qed

lemma length_chunks_sum: "n \<noteq> 0 \<Longrightarrow> sum_list (map length (chunks n xs)) = length xs"
proof -
  assume "n \<noteq> 0"
  then have "length (concat (chunks n xs)) = length xs" by (simp add: concat_chunks)
  then show ?thesis by (simp add: length_concat)
qed

lemma examples_of_batches:
  assumes "DataLoader ds n = Inr dl"
  shows "sum_list (map (\<lambda>(X, y). length X) (iter_batches dl)) = length ds"
proof -
  from assms have n: "n \<noteq> 0" and dl: "dl = \<lparr>dataset = ds, per_batch = n\<rparr>"
    by (auto simp: DataLoader_def split: if_splits)
  have "map (\<lambda>(X, y). length X) (iter_batches dl) = map length (chunks n ds)"
    by (simp add: iter_batches_def dl collate_def comp_def)
  with n show ?thesis by (simp add: length_chunks_sum)
qed

lemma chunks_replicate:
  "n \<noteq> 0 \<Longrightarrow> r < n \<Longrightarrow>
   chunks n (replicate (k * n + r) a) =
     replicate k (replicate n a) @ (if r = 0 then [] else [replicate r a])"
proof (induction k)
  case 0
  then show ?case
    by (cases "r = 0") (simp_all add: chunks_Nil chunks_step)
next
  case (Suc k)
  have ne: "replicate (Suc k * n + r) a \<noteq> []" using Suc.prems by simp
  have t: "take n (replicate (Suc k * n + r) a) = replicate n a"
    by (simp add: min_def)
  have d: "drop n (replicate (Suc k * n + r) a) = replicate (k * n + r) a"
    by simp
  have "chunks n (replicate (Suc k * n + r) a) =
      take n (replicate (Suc k * n + r) a) # chunks n (drop n (replicate (Suc k * n + r) a))"
    using Suc.prems(1) ne by (rule chunks_step)
  also have "\<dots> = replicate n a # chunks n (replicate (k * n + r) a)"
    by (simp only: t d)
  also have "\<dots> = replicate n a #
      (replicate k (replicate n a) @ (if r = 0 then [] else [replicate r a]))"
    using Suc by simp
  finally show ?case by simp
qed

section \<open>The training loop\<close>

lemma progress_counts_append:
  "progress_counts (ls @ ks) = progress_counts ls @ progress_counts ks"
  by (induction ls rule: progress_counts.induct) simp_all

lemma train_batch_Inr:
  fixes w :: "('p, 'g::monoid_add) world"
  assumes "train_batch autograd size' model loss_fn step batch X y w = Inr w'"
  shows "\<exists>pred loss. model (params w) (Tn X) = Inr pred \<and> loss_fn pred y = Inr loss \<and>
           grad w' = autograd (loss_of model loss_fn X y) (params w) \<and>
           params w' = step (params w) (grad w') \<and>
           training w' = training w \<and>
           stdout w' = stdout w @
             (if batch mod 100 = 0 then [ProgressLine loss (batch * length X) size'] else [])"
  using assms
  by (auto simp: train_batch_def bindE_def Let_def zero_grad_def loss_backward_def
      optimizer_step_def print_def split: sum.splits if_splits)

lemma train_batch_step:
  fixes w :: "('p, 'g::monoid_add) world"
  assumes "train_batch autograd size' model loss_fn step batch X y w = Inr w'"
  shows "training_step autograd model loss_fn step (X, y) w w'"
proof -
  from train_batch_Inr[OF assms] obtain pred loss where
    "model (params w) (Tn X) = Inr pred" "loss_fn pred y = Inr loss"
    "grad w' = autograd (loss_of model loss_fn X y) (params w)"
    "params w' = step (params w) (grad w')"
    by blast
  then show ?thesis by (simp add: training_step_def loss_of_def bindE_def)
qed

lemma train_loop_steps:
  fixes w :: "('p, 'g::monoid_add) world"
  assumes "train_loop autograd size' model loss_fn step ebs w = (w', None)"
  shows "\<exists>ws. length ws = Suc (length ebs) \<and> ws ! 0 = w \<and> last ws = w' \<and>
     (\<forall>k<length ebs. training_step autograd model loss_fn step (snd (ebs ! k)) (ws ! k) (ws ! Suc k))"
  using assms
proof (induction ebs arbitrary: w)
  case Nil
  then have "length [w] = Suc (length ([] :: (nat \<times> batch) list)) \<and> [w] ! 0 = w \<and> last [w] = w'"
    by simp
  then show ?case by (intro exI[of _ "[w]"]) simp
next
  case (Cons eb ebs)
  obtain batch X y where eb: "eb = (batch, (X, y))" by (cases eb) auto
  from Cons.prems eb obtain w1 where
    b: "train_batch autograd size' model loss_fn step batch X y w = Inr w1" and
    r: "train_loop autograd size' model loss_fn step ebs w1 = (w', None)"
    by (auto split: sum.splits)
  from Cons.IH[OF r] obtain ws where ws: "length ws = Suc (length ebs)" "ws ! 0 = w1" "last ws = w'"
    "\<forall>k<length ebs. training_step autograd model loss_fn step (snd (ebs ! k)) (ws ! k) (ws ! Suc k)"
    by blast
  have s: "training_step autograd model loss_fn step (X, y) w w1"
    using b by (rule train_batch_step)
  have "ws \<noteq> []" using ws(1) by auto
  have "\<forall>k<length (eb # ebs).
      training_step autograd model loss_fn step (snd ((eb # ebs) ! k)) ((w # ws) ! k) ((w # ws) ! Suc k)"
  proof (intro allI impI)
    fix k assume k: "k < length (eb # ebs)"
    show "training_step autograd model loss_fn step (snd ((eb # ebs) ! k)) ((w # ws) ! k) ((w # ws) ! Suc k)"
    proof (cases k)
      case 0
      with s ws(2) eb show ?thesis by simp
    next
      case (Suc j)
      with k ws(4) show ?thesis by simp
    qed
  qed
  moreover have "length (w # ws) = Suc (length (eb # ebs))" using ws(1) by simp
  moreover have "(w # ws) ! 0 = w" by simp
  moreover have "last (w # ws) = w'" using ws(3) \<open>ws \<noteq> []\<close> by simp
  ultimately show ?case by blast
qed

lemma train_loop_progress:
  fixes w :: "('p, 'g::monoid_add) world"
  assumes "train_loop autograd size' model loss_fn step ebs w = (w', None)"
  shows "progress_counts (stdout w') = progress_counts (stdout w) @
     map (\<lambda>(batch, (X, y)). (batch * length X, size')) (filter (\<lambda>(batch, b). batch mod 100 = 0) ebs)"
  using assms
proof (induction ebs arbitrary: w)
  case Nil
  then show ?case by simp
next
  case (Cons eb ebs)
  obtain batch X y where eb: "eb = (batch, (X, y))" by (cases eb) auto
  from Cons.prems eb obtain w1 where
    b: "train_batch autograd size' model loss_fn step batch X y w = Inr w1" and
    r: "train_loop autograd size' model loss_fn step ebs w1 = (w', None)"
    by (auto split: sum.splits)
  from train_batch_Inr[OF b] obtain loss where
    "stdout w1 = stdout w @
       (if batch mod 100 = 0 then [ProgressLine loss (batch * length X) size'] else [])"
    by blast
  then have "progress_counts (stdout w1) = progress_counts (stdout w) @
       (if batch mod 100 = 0 then [(batch * length X, size')] else [])"
    by (simp add: progress_counts_append)
  with Cons.IH[OF r] eb show ?case by simp
qed

lemma train_loop_total:
  fixes w :: "('p, 'g::monoid_add) world"
  assumes "\<And>p X y. (X, y) \<in> snd ` set ebs \<Longrightarrow> \<exists>pred loss. model p (Tn X) = Inr pred \<and> loss_fn pred y = Inr loss"
  shows "\<exists>w'. train_loop autograd size' model loss_fn step ebs w = (w', None)"
  using assms
proof (induction ebs arbitrary: w)
  case Nil
  then show ?case by simp
next
  case (Cons eb ebs)
  obtain batch X y where eb: "eb = (batch, (X, y))" by (cases eb) auto
  from Cons.prems[of X y "params w"] eb obtain pred loss where
    "model (params w) (Tn X) = Inr pred" "loss_fn pred y = Inr loss" by auto
  then obtain w1 where "train_batch autograd size' model loss_fn step batch X y w = Inr w1"
    by (simp add: train_batch_def bindE_def Let_def)
  moreover have "\<exists>w'. train_loop autograd size' model loss_fn step ebs w1 = (w', None)"
    by (rule Cons.IH) (use Cons.prems in auto)
  ultimately show ?case using eb by auto
qed

text \<open>
  C4. A run of \<^verbatim>\<open>train\<close> without error passes through one world for every batch, in
  the order of the loader, and every passage is a training step: the forward output of
  the model on the batch at the current parameters, the loss of that output against the
  labels of the batch, the gradient of that loss at the current parameters, which is all
  that the buffers hold after the step (what they held before was cleared before
  \<^verbatim>\<open>backward\<close>), and the update rule applied to the current parameters with that
  gradient.
\<close>

theorem train_steps_in_order:
  fixes w :: "('p, 'g::monoid_add) world"
  assumes "train autograd dataloader model loss_fn step w = (w', None)"
  shows "\<exists>ws. length ws = Suc (length (iter_batches dataloader)) \<and> ws ! 0 = w \<and> last ws = w' \<and>
     (\<forall>k<length (iter_batches dataloader).
        training_step autograd model loss_fn step (iter_batches dataloader ! k) (ws ! k) (ws ! Suc k))"
proof -
  let ?ebs = "enumerate 0 (iter_batches dataloader)"
  from assms have r: "train_loop autograd (length (dataset dataloader)) model loss_fn step ?ebs w = (w', None)"
    by (simp add: train_def)
  have "\<forall>k<length (iter_batches dataloader). snd (?ebs ! k) = iter_batches dataloader ! k"
    by (simp add: nth_enumerate_eq)
  with train_loop_steps[OF r] show ?thesis by (simp cong: conj_cong)
qed

lemma toy_batches:
  "iter_batches toy_loader = [([Sc (Fin 0), Sc (Fin 0)], [0, 1]), ([Sc (Fin 0)], [2])]"
  by (simp add: iter_batches_def toy_loader_def chunks_step chunks_Nil collate_def)

lemma toy_gradient: "toy_autograd (loss_of toy_model toy_loss X y) p = real (length X)"
  by (simp add: toy_autograd_def loss_of_def toy_model_def toy_loss_def bindE_def comp_def
      sum_list_addf sum_list_triv)

lemma toy_train:
  "train toy_autograd toy_loader toy_model toy_loss toy_sgd toy_world =
     (\<lparr>params = 17 / 2, grad = 1, training = True, stdout = [ProgressLine 20 0 3]\<rparr>, None)"
  by (simp add: train_def toy_batches enumerate_eq_zip upt_rec)
     (simp add: train_batch_def toy_gradient toy_loader_def toy_model_def toy_loss_def toy_sgd_def toy_world_def
      bindE_def zero_grad_def loss_backward_def optimizer_step_def print_def)

theorem train_steps_in_order_witness:
  "train toy_autograd toy_loader toy_model toy_loss toy_sgd toy_world =
     (\<lparr>params = 17 / 2, grad = 1, training = True, stdout = [ProgressLine 20 0 3]\<rparr>, None) \<and>
   (\<exists>ws. length ws = 3 \<and> ws ! 0 = toy_world \<and>
      last ws = \<lparr>params = 17 / 2, grad = 1, training = True, stdout = [ProgressLine 20 0 3]\<rparr> \<and>
      training_step toy_autograd toy_model toy_loss toy_sgd ([Sc (Fin 0), Sc (Fin 0)], [0, 1]) (ws ! 0) (ws ! 1) \<and>
      training_step toy_autograd toy_model toy_loss toy_sgd ([Sc (Fin 0)], [2]) (ws ! 1) (ws ! 2))"
proof -
  let ?w' = "\<lparr>params = 17 / 2, grad = 1, training = True, stdout = [ProgressLine 20 0 3]\<rparr> :: (real, real) world"
  from train_steps_in_order[OF toy_train] obtain ws where
    len: "length ws = Suc (length (iter_batches toy_loader))" and w0: "ws ! 0 = toy_world"
    and lst: "last ws = ?w'"
    and st: "\<forall>k<length (iter_batches toy_loader).
      training_step toy_autograd toy_model toy_loss toy_sgd (iter_batches toy_loader ! k) (ws ! k) (ws ! Suc k)"
    by blast
  have l3: "length ws = 3" using len by (simp add: toy_batches)
  have s0: "training_step toy_autograd toy_model toy_loss toy_sgd
      ([Sc (Fin 0), Sc (Fin 0)], [0, 1]) (ws ! 0) (ws ! 1)"
    using st[rule_format, of 0] by (simp add: toy_batches)
  have s1: "training_step toy_autograd toy_model toy_loss toy_sgd
      ([Sc (Fin 0)], [2]) (ws ! 1) (ws ! 2)"
    using st[rule_format, of 1] by (simp add: toy_batches numeral_2_eq_2)
  from l3 w0 lst s0 s1 have "\<exists>ws. length ws = 3 \<and> ws ! 0 = toy_world \<and> last ws = ?w' \<and>
      training_step toy_autograd toy_model toy_loss toy_sgd ([Sc (Fin 0), Sc (Fin 0)], [0, 1]) (ws ! 0) (ws ! 1) \<and>
      training_step toy_autograd toy_model toy_loss toy_sgd ([Sc (Fin 0)], [2]) (ws ! 1) (ws ! 2)"
    by blast
  with toy_train show ?thesis by simp
qed

lemma partial_batches:
  "iter_batches partial_loader = replicate 100 ([Sc (Fin 0), Sc (Fin 0)], [0, 0]) @ [([Sc (Fin 0)], [0])]"
proof -
  have "chunks 2 (replicate (100 * 2 + 1) (Sc (Fin 0), 0::nat)) =
      replicate 100 (replicate 2 (Sc (Fin 0), 0)) @ (if (1::nat) = 0 then [] else [replicate 1 (Sc (Fin 0), 0)])"
    by (rule chunks_replicate) simp_all
  then have "chunks 2 (replicate 201 (Sc (Fin 0), 0::nat)) =
      replicate 100 [(Sc (Fin 0), 0), (Sc (Fin 0), 0)] @ [[(Sc (Fin 0), 0)]]"
    by (simp add: numeral_2_eq_2)
  then show ?thesis
    by (simp add: iter_batches_def partial_loader_def collate_def)
qed

lemma multiples_below_100: "filter (\<lambda>i. i mod 100 = 0) [0..<100] = [0::nat]"
  by code_simp

lemma partial_progress:
  "map (\<lambda>(batch, (X, y)). (batch * length X, 201::nat))
     (filter (\<lambda>(batch, b). batch mod 100 = 0) (enumerate 0 (iter_batches partial_loader))) =
   [(0, 201), (100, 201)]"
proof -
  have "enumerate 0 (iter_batches partial_loader) =
      map (\<lambda>i. (i, ([Sc (Fin 0), Sc (Fin 0)], [0, 0]))) [0..<100] @ [(100, ([Sc (Fin 0)], [0]))]"
    by (simp add: partial_batches enumerate_append_eq enumerate_replicate_eq)
  moreover have "filter (\<lambda>(batch, b). batch mod 100 = 0)
        (map (\<lambda>i. (i, ([Sc (Fin 0), Sc (Fin 0)], [0::nat, 0]))) [0..<100]) =
      map (\<lambda>i. (i, ([Sc (Fin 0), Sc (Fin 0)], [0, 0]))) (filter (\<lambda>i. i mod 100 = 0) [0..<100])"
    by (simp add: filter_map comp_def)
  ultimately show ?thesis
    by (simp add: multiples_below_100)
qed

text \<open>
  C8. The progress line of batch 100 of a loader whose batch 100 is the last, shorter
  one: a dataset of 201 examples in batches of 2. The line reports 100 examples, while
  the 100 batches before it hold 200 examples.
\<close>

theorem train_progress_partial_batch:
  "snd (train toy_autograd partial_loader toy_model toy_loss toy_sgd toy_world) = None \<and>
   progress_counts (stdout (fst (train toy_autograd partial_loader toy_model toy_loss toy_sgd toy_world))) =
     [(0, 201), (100, 201)] \<and>
   length (iter_batches partial_loader) = 101 \<and>
   sum_list (map (\<lambda>(X, y). length X) (take 100 (iter_batches partial_loader))) = 200"
proof -
  let ?ebs = "enumerate 0 (iter_batches partial_loader)"
  have "\<exists>w'. train_loop toy_autograd 201 toy_model toy_loss toy_sgd ?ebs toy_world = (w', None)"
    by (rule train_loop_total) (simp add: toy_model_def toy_loss_def)
  then obtain w' where r: "train_loop toy_autograd 201 toy_model toy_loss toy_sgd ?ebs toy_world = (w', None)"
    by blast
  have t: "train toy_autograd partial_loader toy_model toy_loss toy_sgd toy_world = (w', None)"
    using r by (simp add: train_def partial_loader_def)
  have "progress_counts (stdout w') = [(0, 201), (100, 201)]"
    using train_loop_progress[OF r] partial_progress by (simp add: toy_world_def)
  moreover have "length (iter_batches partial_loader) = 101"
    by (simp add: partial_batches)
  moreover have "sum_list (map (\<lambda>(X, y). length X) (take 100 (iter_batches partial_loader))) = 200"
    by (simp add: partial_batches sum_list_replicate)
  ultimately show ?thesis using t by simp
qed

section \<open>The evaluation loop\<close>

lemma argmax1_rows:
  "[] \<notin> set pred \<Longrightarrow> \<exists>top1. argmax1 pred = Inr top1 \<and> list_all2 (\<lambda>row i. argmax row = Inr i) pred top1"
proof (induction pred)
  case Nil
  then show ?case by simp
next
  case (Cons r rs)
  then obtain top1 where "argmax1 rs = Inr top1" "list_all2 (\<lambda>row i. argmax row = Inr i) rs top1"
    by auto
  moreover from Cons.prems obtain i where "argmax r = Inr i"
    by (cases r) (auto simp: argmax_def)
  ultimately show ?case by (simp add: bindE_def)
qed

lemma count_rows:
  assumes "list_all2 (\<lambda>row i. argmax row = Inr i) pred top1" and "length pred = length y"
  shows "count_eq top1 y = Inr (real (top1_correct pred y))"
proof -
  from assms(1) have len: "length top1 = length pred" by (simp add: list_all2_lengthD)
  have "length (filter (\<lambda>(i, l). i = l) (zip top1 y)) =
        length (filter (\<lambda>(row, l). argmax row = Inr l) (zip pred y))"
    using assms(1) assms(2)
  proof (induction pred top1 arbitrary: y rule: list_all2_induct)
    case Nil
    then show ?case by simp
  next
    case (Cons r rs i js)
    then show ?case by (cases y) auto
  qed
  with len assms(2) show ?thesis by (simp add: count_eq_def top1_correct_def)
qed

lemma test_loop_sums:
  assumes "list_all2 (evaluated loss_fn model p) bs outs"
  shows "test_loop model loss_fn p bs (test_loss, correct) =
           Inr (test_loss + total_loss outs, correct + real (total_correct bs outs))"
  using assms
proof (induction bs outs arbitrary: test_loss correct rule: list_all2_induct)
  case Nil
  then show ?case by (simp add: total_loss_def total_correct_def)
next
  case (Cons b bs out outs)
  obtain X y where b: "b = (X, y)" by (cases b)
  obtain pred loss where out: "out = (pred, loss)" by (cases out)
  from Cons.hyps(1) b out have m: "model p (Tn X) = Inr pred" and l: "loss_fn pred y = Inr loss"
    and len: "length pred = length y" and ne: "[] \<notin> set pred"
    by (simp_all add: evaluated_def)
  from argmax1_rows[OF ne] obtain top1 where t: "argmax1 pred = Inr top1"
    and a: "list_all2 (\<lambda>row i. argmax row = Inr i) pred top1" by blast
  have c: "count_eq top1 y = Inr (real (top1_correct pred y))"
    using a len by (rule count_rows)
  have "test_loop model loss_fn p (b # bs) (test_loss, correct) =
        test_loop model loss_fn p bs (test_loss + loss, correct + real (top1_correct pred y))"
    by (simp add: b bindE_def m l t c)
  also have "\<dots> = Inr (test_loss + loss + total_loss outs,
                        correct + real (top1_correct pred y) + real (total_correct bs outs))"
    by (rule Cons.IH)
  finally show ?case
    by (simp add: b out total_loss_def total_correct_def add.assoc)
qed

lemma test_prints:
  assumes "dataset dataloader \<noteq> []"
    and "list_all2 (evaluated loss_fn model (params w)) (iter_batches dataloader) outs"
  shows "test loss_fn dataloader model w =
           (print (TestLine (100 * (real (total_correct (iter_batches dataloader) outs) /
                                    real (length (dataset dataloader))))
                            (total_loss outs / real (length (dataset dataloader))))
              (w\<lparr>training := False\<rparr>), None)"
proof -
  have "test_loop model loss_fn (params w) (iter_batches dataloader) (0, 0) =
      Inr (0 + total_loss outs, 0 + real (total_correct (iter_batches dataloader) outs))"
    using assms(2) by (rule test_loop_sums)
  then show ?thesis using assms(1) by (simp add: test_def Let_def)
qed

text \<open>
  C5. \<^verbatim>\<open>test\<close> leaves the parameters of the model, and the gradient buffers, as they
  were, whether it prints its report or stops on an error.
\<close>

theorem test_keeps_params:
  "params (fst (test loss_fn dataloader model w)) = params w \<and>
   grad (fst (test loss_fn dataloader model w)) = grad w"
  by (simp add: test_def Let_def print_def split: sum.splits prod.splits)

text \<open>
  C2, for a dataset that is not empty and without the average loss. When the model and
  the loss function return on every batch (one output row for each example), the loop of
  \<^verbatim>\<open>test\<close> ends with the sum of the losses of the batches and the number of examples
  whose top-1 class is the label, and \<^verbatim>\<open>test\<close> prints that number divided by the number
  of examples (as a percentage); the number of examples is the number of examples in the
  batches.
\<close>

theorem test_reports_accuracy:
  assumes "DataLoader ds n = Inr dataloader" and "ds \<noteq> []"
    and "list_all2 (evaluated loss_fn model (params w)) (iter_batches dataloader) outs"
  shows "test_loop model loss_fn (params w) (iter_batches dataloader) (0, 0) =
           Inr (total_loss outs, real (total_correct (iter_batches dataloader) outs)) \<and>
         (\<exists>avg. test loss_fn dataloader model w =
           (print (TestLine (100 * (real (total_correct (iter_batches dataloader) outs) / real (length ds))) avg)
              (w\<lparr>training := False\<rparr>), None)) \<and>
         sum_list (map (\<lambda>(X, y). length X) (iter_batches dataloader)) = length ds"
proof -
  from assms(1) have ds: "dataset dataloader = ds"
    by (auto simp: DataLoader_def split: if_splits)
  have "test_loop model loss_fn (params w) (iter_batches dataloader) (0, 0) =
      Inr (0 + total_loss outs, 0 + real (total_correct (iter_batches dataloader) outs))"
    using assms(3) by (rule test_loop_sums)
  moreover have "test loss_fn dataloader model w =
           (print (TestLine (100 * (real (total_correct (iter_batches dataloader) outs) / real (length ds)))
                            (total_loss outs / real (length ds)))
              (w\<lparr>training := False\<rparr>), None)"
    using test_prints[OF _ assms(3)] assms(2) by (simp add: ds)
  ultimately show ?thesis using examples_of_batches[OF assms(1)] by auto
qed

lemma mixed_batches:
  "iter_batches mixed_loader = [([white_image, sample_image], [9, 3]), ([sample_image], [9])]"
  by (simp add: iter_batches_def mixed_loader_def chunks_step chunks_Nil collate_def)

lemma forward_white_black:
  "forward exact_kernel sample_network (Tn [white_image, sample_image]) =
     Inr [[Fin 0, Fin 0, Fin 0, Fin 1, Fin 0, Fin 0, Fin 0, Fin 0, Fin 0, Fin 784],
          [Fin 0, Fin 0, Fin 0, Fin 1, Fin 0, Fin 0, Fin 0, Fin 0, Fin 0, Fin 0]]"
  using forward_logits[OF sample_network_init uniform_batch[of "Fin 1" "[Fin 0]"], of exact_kernel]
    sample_logits[of 1] sample_logits[of 0]
  by (simp add: white_image_def sample_image_def uniform_image_vector)

lemma forward_black:
  "forward exact_kernel sample_network (Tn [sample_image]) =
     Inr [[Fin 0, Fin 0, Fin 0, Fin 1, Fin 0, Fin 0, Fin 0, Fin 0, Fin 0, Fin 0]]"
  using forward_logits[OF sample_network_init uniform_batch[of "Fin 0" "[]"], of exact_kernel]
    sample_logits[of 0]
  by (simp add: sample_image_def uniform_image_vector)

lemma argmax_white: "argmax [Fin 0, Fin 0, Fin 0, Fin 1, Fin 0, Fin 0, Fin 0, Fin 0, Fin 0, Fin 784] = Inr 9"
  by (simp add: argmax_def)

lemma argmax_black: "argmax [Fin 0, Fin 0, Fin 0, Fin 1, Fin 0, Fin 0, Fin 0, Fin 0, Fin 0, Fin 0] = Inr 3"
  by (simp add: argmax_def)

theorem test_reports_accuracy_witness:
  "DataLoader [(white_image, 9), (sample_image, 3), (sample_image, 9)] 2 = Inr mixed_loader \<and>
   test two_loss mixed_loader (forward exact_kernel) sample_world =
     (\<lparr>params = sample_network, grad = 5, training = False,
       stdout = [TestLine (100 * (2 / 3)) (4 / 3)]\<rparr>, None)"
proof -
  let ?w = "[Fin 0, Fin 0, Fin 0, Fin 1, Fin 0, Fin 0, Fin 0, Fin 0, Fin 0, Fin 784]"
  let ?b = "[Fin 0, Fin 0, Fin 0, Fin 1, Fin 0, Fin 0, Fin 0, Fin 0, Fin 0, Fin 0]"
  let ?outs = "[([?w, ?b], 2), ([?b], 2::real)]"
  have d: "DataLoader [(white_image, 9), (sample_image, 3), (sample_image, 9)] 2 = Inr mixed_loader"
    by (simp add: DataLoader_def mixed_loader_def)
  have e: "list_all2 (evaluated two_loss (forward exact_kernel) (params sample_world))
      (iter_batches mixed_loader) ?outs"
    by (simp add: mixed_batches evaluated_def sample_world_def forward_white_black forward_black two_loss_def)
  have c: "total_correct (iter_batches mixed_loader) ?outs = 2"
    by (simp add: mixed_batches total_correct_def top1_correct_def argmax_white argmax_black)
  have l: "total_loss ?outs = 4"
    by (simp add: total_loss_def)
  from test_reports_accuracy[OF d _ e] have
    t: "test_loop (forward exact_kernel) two_loss (params sample_world) (iter_batches mixed_loader) (0, 0) =
      Inr (4, 2)"
    by (simp add: c l)
  then have "test two_loss mixed_loader (forward exact_kernel) sample_world =
      (print (TestLine (100 * (2 / 3)) (4 / 3)) (sample_world\<lparr>training := False\<rparr>), None)"
    by (simp add: test_def Let_def mixed_loader_def)
  then show ?thesis using d by (simp add: print_def sample_world_def)
qed

text \<open>
  C2 fails on a loader of an empty dataset: there is no batch, both sums are 0, and the
  division by the size raises before anything is printed.
\<close>

theorem test_empty_dataset_counterexample:
  "DataLoader [] batch_size = Inr empty_loader \<and>
   test two_loss empty_loader (forward exact_kernel) sample_world =
     (\<lparr>params = sample_network, grad = 5, training = False, stdout = []\<rparr>, Some ZeroDivisionError)"
  by (simp add: test_def DataLoader_def batch_size_def empty_loader_def iter_batches_def chunks_Nil
      sample_world_def)

text \<open>
  The average loss that \<^verbatim>\<open>test\<close> prints is the sum of the losses of the batches divided
  by the number of examples. With a loss function that returns the mean over the batch,
  as the notebook's does, it is not the mean loss: for one batch of 64 examples that each
  have loss 1, the mean loss of the batch is 1 and the printed average is 1/64.
\<close>

lemma full_batches: "iter_batches full_loader = [(replicate 64 white_image, replicate 64 9)]"
proof -
  have "chunks 64 (replicate (1 * 64 + 0) (white_image, 9::nat)) =
      replicate 1 (replicate 64 (white_image, 9)) @ (if (0::nat) = 0 then [] else [replicate 0 (white_image, 9)])"
    by (rule chunks_replicate) simp_all
  then show ?thesis
    by (simp add: iter_batches_def full_loader_def collate_def)
qed

lemma forward_white_batch:
  assumes "0 < n"
  shows "forward exact_kernel sample_network (Tn (replicate n white_image)) =
     Inr (replicate n [Fin 0, Fin 0, Fin 0, Fin 1, Fin 0, Fin 0, Fin 0, Fin 0, Fin 0, Fin 784])"
proof -
  from assms obtain k where n: "n = Suc k" by (cases n) auto
  have "image_batch (Tn (replicate n white_image))"
    using uniform_batch[of "Fin 1" "replicate k (Fin 1)"] by (simp add: n white_image_def)
  from forward_logits[OF sample_network_init this, of exact_kernel] show ?thesis
    using sample_logits[of 1] by (simp add: white_image_def uniform_image_vector)
qed

lemma mean_loss_one:
  "mean_loss (\<lambda>row l. 1) (replicate 64 r) (replicate 64 l) = Inr 1"
  by (simp add: mean_loss_def zip_replicate sum_list_replicate)

lemma test_average_of_batch_means:
  "test (mean_loss (\<lambda>row l. 1)) full_loader (forward exact_kernel) sample_world =
     (\<lparr>params = sample_network, grad = 5, training = False,
       stdout = [TestLine 100 (1 / 64)]\<rparr>, None)"
proof -
  let ?w = "[Fin 0, Fin 0, Fin 0, Fin 1, Fin 0, Fin 0, Fin 0, Fin 0, Fin 0, Fin 784]"
  let ?outs = "[(replicate 64 ?w, 1::real)]"
  have e: "list_all2 (evaluated (mean_loss (\<lambda>row l. 1)) (forward exact_kernel) (params sample_world))
      (iter_batches full_loader) ?outs"
    by (simp add: full_batches evaluated_def sample_world_def forward_white_batch mean_loss_one)
  have c: "total_correct (iter_batches full_loader) ?outs = 64"
    by (simp add: full_batches total_correct_def top1_correct_def zip_replicate argmax_white)
  have l: "total_loss ?outs = 1"
    by (simp add: total_loss_def)
  have "dataset full_loader \<noteq> []" by (simp add: full_loader_def)
  from test_prints[OF this e] have
    "test (mean_loss (\<lambda>row l. 1)) full_loader (forward exact_kernel) sample_world =
       (print (TestLine (100 * (real 64 / real (length (dataset full_loader)))) (1 / real (length (dataset full_loader))))
          (sample_world\<lparr>training := False\<rparr>), None)"
    by (simp only: c l)
  then show ?thesis
    by (simp add: print_def sample_world_def full_loader_def)
qed

section \<open>The data stage and the epoch loop\<close>

lemma test_dataloader_ignores_test_data:
  "test_dataloader (nb\<lparr>test_data := td\<rparr>) = test_dataloader nb"
  by (simp add: test_dataloader_def)

lemma run_epochs_ignores_test_data:
  "run_epochs autograd (nb\<lparr>test_data := td\<rparr>) model loss_fn step w =
   run_epochs autograd nb model loss_fn step w"
  by (simp add: run_epochs_def test_dataloader_def train_dataloader_def split: sum.splits)

text \<open>
  C1. The loader that the epoch loop hands to \<^verbatim>\<open>test\<close> is built from
  \<^verbatim>\<open>training_data\<close>: on a notebook whose training split holds one black image of
  class 9 and whose test split holds one white image of class 0, its only batch is the
  training pair.
\<close>

theorem test_dataloader_draws_training_data:
  "test_dataloader sample_notebook = Inr \<lparr>dataset = [(sample_image, 9)], per_batch = 64\<rparr> \<and>
   iter_batches \<lparr>dataset = [(sample_image, 9)], per_batch = 64\<rparr> = [([sample_image], [9])] \<and>
   test_data sample_notebook = [(white_image, 0)] \<and>
   white_image \<noteq> sample_image"
proof -
  have "iter_batches \<lparr>dataset = [(sample_image, 9)], per_batch = 64\<rparr> = [([sample_image], [9])]"
    by (simp add: iter_batches_def chunks_step chunks_Nil collate_def)
  moreover have "white_image \<noteq> sample_image"
    by (simp add: white_image_def sample_image_def uniform_image_def numeral_eq_Suc)
  ultimately show ?thesis
    by (simp add: test_dataloader_def sample_notebook_def DataLoader_def batch_size_def)
qed

end
